theory Spec2Isabelle
  imports Main "HOL-Library.Sublist"
begin

section \<open>Values that cross a stage boundary\<close>

text \<open>
  The package \<^verbatim>\<open>stream\<close> of \<^verbatim>\<open>io/stream/safe.go\<close> builds pipelines out of two kinds of
  stage, \<^verbatim>\<open>SafeIOStreamWriter\<close> and \<^verbatim>\<open>SafeIOStreamHandler\<close>. Each stage runs one
  goroutine and talks to its neighbours through an \<^verbatim>\<open>*IOStream\<close> and an
  \<^verbatim>\<open>*ErrorPasser\<close>.

  A Go \<^verbatim>\<open>error\<close> is identified with its message, a recovered panic value with its
  \<^verbatim>\<open>%v\<close> rendering. A pointer is an address or \<^verbatim>\<open>nil\<close> (\<open>None\<close>). A value of the
  interface type \<^verbatim>\<open>Datapack\<close> is \<^verbatim>\<open>nil\<close> (\<open>None\<close>) or a pack with the two accessors
  the handler loop calls, \<^verbatim>\<open>ReadCloser()\<close> (which may itself be \<^verbatim>\<open>nil\<close>) and
  \<^verbatim>\<open>Context()\<close>.
\<close>

type_synonym error = string
type_synonym ref = nat

datatype pack = Pack (ReadCloser: "string option") (Context: string)

type_synonym Datapack = "pack option"

text \<open>
  What a run does to its surroundings is recorded, oldest first: every call of the
  producer, of the handler and of the finalizer, every channel operation, and every
  goroutine launched.
\<close>

datatype event =
    GoFunc
  | CallNext
  | CallWrite ref Datapack bool
  | CallRead ref
  | CallHandler string string
  | CallPut ref error
  | CallCheck ref
  | CloseErr ref
  | CloseStream ref
  | CallFinalizer

section \<open>The two channels\<close>

text \<open>
  \<^verbatim>\<open>IOStream\<close> and \<^verbatim>\<open>ErrorPasser\<close> are declared elsewhere in the package; their behaviour
  below follows the specification (sections 4.1 and 4.2). Every channel has one writing
  and one reading task. From inside one stage the task at the other end is the
  environment, so a channel carries, next to its own state, what that peer is going to
  do: a reading peer answers each hand-off (\<open>reader_move\<close>), a writing peer has a list
  of moves still to come (\<open>writer_move\<close>).
\<close>

datatype reader_move = Accepts | ClosesInstead | Stalls

datatype 'a writer_move = Sends 'a | Shuts

record IOStream =
  s_closed :: bool
  s_delivered :: "Datapack list"
  s_writer :: "Datapack writer_move list"

record ErrorPasser =
  e_cap :: nat
  e_queue :: "error list"
  e_closed :: bool
  e_writer :: "error writer_move list"

text \<open>
  The store: the channels by address, the next free addresses, the capacity
  \<^verbatim>\<open>NewErrorPasser()\<close> gives a channel, the reading peer of every data channel (asked with
  the number of items it has taken so far), and the record of events.
\<close>

record world =
  streams :: "ref \<Rightarrow> IOStream"
  errs :: "ref \<Rightarrow> ErrorPasser"
  next_stream :: ref
  next_err :: ref
  default_cap :: nat
  consumer :: "ref \<Rightarrow> nat \<Rightarrow> reader_move"
  trace :: "event list"

text \<open>
  A call returns, panics, or never returns. A loop that has not ended when its fuel is
  used up is \<open>Unfinished\<close>; \<open>Hung\<close> is a task blocked for good inside a channel
  operation, \<open>Fault v\<close> a panic with value \<open>v\<close> (recovered or not, as the context says).
\<close>

datatype 'a res = Ok 'a world | Panic string | Block

datatype exit = Normal | Fault string | Hung | Unfinished

definition nil_dereference :: string where
  "nil_dereference = ''runtime error: invalid memory address or nil pointer dereference''"

definition log_event :: "event \<Rightarrow> world \<Rightarrow> world" where
  "log_event ev w = w\<lparr>trace := trace w @ [ev]\<rparr>"

definition set_stream :: "ref \<Rightarrow> IOStream \<Rightarrow> world \<Rightarrow> world" where
  "set_stream r s w = w\<lparr>streams := (streams w)(r := s)\<rparr>"

definition set_err :: "ref \<Rightarrow> ErrorPasser \<Rightarrow> world \<Rightarrow> world" where
  "set_err r c w = w\<lparr>errs := (errs w)(r := c)\<rparr>"

text \<open>
  Modelled from the spec: \<^verbatim>\<open>NewIOStream\<close>, whose code is not part of the sources. A new
  Data Channel is open and has handed over nothing; the stage that builds it is its only
  writer.
\<close>

definition NewIOStream :: "world \<Rightarrow> ref \<times> world" where
  "NewIOStream w =
     (next_stream w,
      (set_stream (next_stream w) \<lparr>s_closed = False, s_delivered = [], s_writer = []\<rparr> w)
        \<lparr>next_stream := Suc (next_stream w)\<rparr>)"

text \<open>
  Modelled from the spec: \<^verbatim>\<open>IOStream.Write\<close>, whose code is not part of the sources.
  ``Blocks until either the single reader accepts the item or the channel has been closed
  by the reader side. Returns true if the channel was already closed when the call was
  attempted or became closed during the attempt.'' A method called through a
  \<^verbatim>\<open>nil\<close> pointer panics.
\<close>

definition IOStream_Write :: "ref option \<Rightarrow> Datapack \<Rightarrow> world \<Rightarrow> bool res" where
  "IOStream_Write p d w =
     (case p of
        None \<Rightarrow> Panic nil_dereference
      | Some r \<Rightarrow>
          (let s = streams w r in
           if s_closed s then Ok True (log_event (CallWrite r d True) w)
           else
             (case consumer w r (length (s_delivered s)) of
                Accepts \<Rightarrow>
                  Ok False (log_event (CallWrite r d False)
                    (set_stream r (s\<lparr>s_delivered := s_delivered s @ [d]\<rparr>) w))
              | ClosesInstead \<Rightarrow>
                  Ok True (log_event (CallWrite r d True)
                    (set_stream r (s\<lparr>s_closed := True\<rparr>) w))
              | Stalls \<Rightarrow> Block)))"

text \<open>
  Modelled from the spec: \<^verbatim>\<open>IOStream.Read\<close>, whose code is not part of the sources.
  ``Blocks until an item is available or the channel is closed. When closed=true, no item
  is returned.'' The next item is the writing peer's next move; a peer with no move left
  leaves the reader blocked.
\<close>

definition IOStream_Read :: "ref option \<Rightarrow> world \<Rightarrow> (Datapack \<times> bool) res" where
  "IOStream_Read p w =
     (case p of
        None \<Rightarrow> Panic nil_dereference
      | Some r \<Rightarrow>
          (let s = streams w r in
           if s_closed s then Ok (None, True) (log_event (CallRead r) w)
           else
             (case s_writer s of
                [] \<Rightarrow> Block
              | Sends d # ms \<Rightarrow>
                  Ok (d, False) (log_event (CallRead r) (set_stream r (s\<lparr>s_writer := ms\<rparr>) w))
              | Shuts # ms \<Rightarrow>
                  Ok (None, True) (log_event (CallRead r)
                    (set_stream r (s\<lparr>s_closed := True, s_writer := ms\<rparr>) w)))))"

text \<open>
  Modelled from the spec: \<^verbatim>\<open>IOStream.Close\<close>, whose code is not part of the sources.
  ``Idempotent; transitions state to Closed.''
\<close>

definition IOStream_Close :: "ref option \<Rightarrow> world \<Rightarrow> unit res" where
  "IOStream_Close p w =
     (case p of
        None \<Rightarrow> Panic nil_dereference
      | Some r \<Rightarrow>
          Ok () (log_event (CloseStream r) (set_stream r ((streams w r)\<lparr>s_closed := True\<rparr>) w)))"

text \<open>
  Modelled from the spec: \<^verbatim>\<open>NewErrorPasserWithCap\<close> and \<^verbatim>\<open>NewErrorPasser\<close>, whose code
  is not part of the sources. The capacity is fixed at construction; the capacity the
  second constructor picks is a parameter of the store.
\<close>

definition NewErrorPasserWithCap :: "nat \<Rightarrow> world \<Rightarrow> ref \<times> world" where
  "NewErrorPasserWithCap n w =
     (next_err w,
      (set_err (next_err w) \<lparr>e_cap = n, e_queue = [], e_closed = False, e_writer = []\<rparr> w)
        \<lparr>next_err := Suc (next_err w)\<rparr>)"

definition NewErrorPasser :: "world \<Rightarrow> ref \<times> world" where
  "NewErrorPasser w = NewErrorPasserWithCap (default_cap w) w"

text \<open>
  Modelled from the spec: \<^verbatim>\<open>ErrorPasser.Put\<close>, whose code is not part of the sources.
  ``Appends an error; blocks if the bounded capacity is currently full.'' The reading peer
  is taken not to drain while the stage runs, so a put onto a full channel blocks for
  good.
\<close>

definition ErrorPasser_Put :: "ref option \<Rightarrow> error \<Rightarrow> world \<Rightarrow> unit res" where
  "ErrorPasser_Put p e w =
     (case p of
        None \<Rightarrow> Panic nil_dereference
      | Some r \<Rightarrow>
          (let c = errs w r in
           if length (e_queue c) < e_cap c
           then Ok () (log_event (CallPut r e) (set_err r (c\<lparr>e_queue := e_queue c @ [e]\<rparr>) w))
           else Block))"

text \<open>
  Modelled from the spec: \<^verbatim>\<open>ErrorPasser.Check\<close>, whose code is not part of the sources.
  ``Returns the next buffered error if any is queued; if none is queued and the channel
  has been closed, returns done=true''; if none is queued and the channel is open the
  call returns neither, and the writing peer gets to make its next move before the next
  poll.
\<close>

definition ErrorPasser_Check :: "ref option \<Rightarrow> world \<Rightarrow> (error option \<times> bool) res" where
  "ErrorPasser_Check p w =
     (case p of
        None \<Rightarrow> Panic nil_dereference
      | Some r \<Rightarrow>
          (let c = errs w r in
           case e_queue c of
             e # es \<Rightarrow> Ok (Some e, False) (log_event (CallCheck r) (set_err r (c\<lparr>e_queue := es\<rparr>) w))
           | [] \<Rightarrow>
               if e_closed c then Ok (None, True) (log_event (CallCheck r) w)
               else
                 (case e_writer c of
                    [] \<Rightarrow> Ok (None, False) (log_event (CallCheck r) w)
                  | Sends e # ms \<Rightarrow>
                      Ok (None, False) (log_event (CallCheck r)
                        (set_err r (c\<lparr>e_queue := [e], e_writer := ms\<rparr>) w))
                  | Shuts # ms \<Rightarrow>
                      Ok (None, False) (log_event (CallCheck r)
                        (set_err r (c\<lparr>e_closed := True, e_writer := ms\<rparr>) w)))))"

text \<open>
  Modelled from the spec: \<^verbatim>\<open>ErrorPasser.Close\<close> and \<^verbatim>\<open>ErrorPasser.Cap\<close>, whose code is
  not part of the sources. Closing is idempotent and ``does not discard already-buffered,
  unread errors''.
\<close>

definition ErrorPasser_Close :: "ref option \<Rightarrow> world \<Rightarrow> unit res" where
  "ErrorPasser_Close p w =
     (case p of
        None \<Rightarrow> Panic nil_dereference
      | Some r \<Rightarrow>
          Ok () (log_event (CloseErr r) (set_err r ((errs w r)\<lparr>e_closed := True\<rparr>) w)))"

definition ErrorPasser_Cap :: "ref option \<Rightarrow> world \<Rightarrow> nat res" where
  "ErrorPasser_Cap p w =
     (case p of
        None \<Rightarrow> Panic nil_dereference
      | Some r \<Rightarrow> Ok (e_cap (errs w r)) w)"

section \<open>SafeIOStreamWriter\<close>

text \<open>
  \<^verbatim>\<open>DatapackProducer\<close> is an interface with the one method
  \<^verbatim>\<open>Next() (datapack Datapack, hasNext bool, err error)\<close>. A producer is an object with
  state of its own: a call takes the state and gives the three results, or panics, and
  the state after the call.
\<close>

datatype next_result = Yields Datapack bool "error option" | NextPanics string

type_synonym 'p DatapackProducer = "'p \<Rightarrow> next_result \<times> 'p"

record 'p SafeIOStreamWriter =
  datapackProducer :: "'p DatapackProducer"

definition NewSafeIOStreamWriter :: "'p DatapackProducer \<Rightarrow> 'p SafeIOStreamWriter" where
  "NewSafeIOStreamWriter p = \<lparr>datapackProducer = p\<rparr>"

text \<open>
  The \<^verbatim>\<open>for\<close> loop of the goroutine (lines 40 to 55). One unit of fuel is one call of
  \<^verbatim>\<open>Next\<close>. The branches are the source's, in its order: an error is put and ends the
  loop; a \<^verbatim>\<open>nil\<close> datapack goes straight to the next call; any other datapack is
  written, and the loop ends when \<^verbatim>\<open>hasNext\<close> is false or the write found the stream
  closed.
\<close>

fun writer_loop ::
  "nat \<Rightarrow> 'p SafeIOStreamWriter \<Rightarrow> 'p \<Rightarrow> ref option \<Rightarrow> ref option \<Rightarrow> world \<Rightarrow> exit \<times> world"
where
  "writer_loop 0 s st outputStream outputErr w = (Unfinished, w)"
| "writer_loop (Suc n) s st outputStream outputErr w =
     (case datapackProducer s st of
        (NextPanics v, st') \<Rightarrow> (Fault v, log_event CallNext w)
      | (Yields datapack hasNext err, st') \<Rightarrow>
          (case err of
             Some e \<Rightarrow>
               (case ErrorPasser_Put outputErr e (log_event CallNext w) of
                  Ok u w' \<Rightarrow> (Normal, w')
                | Panic v \<Rightarrow> (Fault v, log_event CallNext w)
                | Block \<Rightarrow> (Hung, log_event CallNext w))
           | None \<Rightarrow>
               (case datapack of
                  None \<Rightarrow> writer_loop n s st' outputStream outputErr (log_event CallNext w)
                | Some d \<Rightarrow>
                    (case IOStream_Write outputStream datapack (log_event CallNext w) of
                       Ok streamClosed w' \<Rightarrow>
                         if \<not> hasNext \<or> streamClosed then (Normal, w')
                         else writer_loop n s st' outputStream outputErr w'
                     | Panic v \<Rightarrow> (Fault v, log_event CallNext w)
                     | Block \<Rightarrow> (Hung, log_event CallNext w)))))"

text \<open>
  The deferred function (lines 30 to 38), entered with the way the loop ended. A
  recovered panic is wrapped by \<^verbatim>\<open>fmt.Errorf\<close> and put; then the Error Channel is closed,
  then the Data Channel. A task that hangs or is still running has not reached it.
\<close>

definition writer_panicked :: "string \<Rightarrow> error" where
  "writer_panicked r = ''SafeIOStreamWriter panicked, panic info = '' @ r"

definition close_outputs :: "ref option \<Rightarrow> ref option \<Rightarrow> world \<Rightarrow> unit res" where
  "close_outputs outputStream outputErr w =
     (case ErrorPasser_Close outputErr w of
        Ok u w1 \<Rightarrow> IOStream_Close outputStream w1
      | Panic v \<Rightarrow> Panic v
      | Block \<Rightarrow> Block)"

definition writer_deferred :: "exit \<Rightarrow> ref option \<Rightarrow> ref option \<Rightarrow> world \<Rightarrow> exit \<times> world" where
  "writer_deferred ex outputStream outputErr w =
     (case ex of
        Hung \<Rightarrow> (Hung, w)
      | Unfinished \<Rightarrow> (Unfinished, w)
      | Normal \<Rightarrow>
          (case close_outputs outputStream outputErr w of
             Ok u w' \<Rightarrow> (Normal, w') | Panic v \<Rightarrow> (Fault v, w) | Block \<Rightarrow> (Hung, w))
      | Fault r \<Rightarrow>
          (case ErrorPasser_Put outputErr (writer_panicked r) w of
             Ok u w1 \<Rightarrow>
               (case close_outputs outputStream outputErr w1 of
                  Ok u w' \<Rightarrow> (Normal, w') | Panic v \<Rightarrow> (Fault v, w1) | Block \<Rightarrow> (Hung, w1))
           | Panic v \<Rightarrow> (Fault v, w)
           | Block \<Rightarrow> (Hung, w)))"

definition writer_goroutine ::
  "nat \<Rightarrow> 'p SafeIOStreamWriter \<Rightarrow> 'p \<Rightarrow> ref option \<Rightarrow> ref option \<Rightarrow> world \<Rightarrow> exit \<times> world"
where
  "writer_goroutine fuel s st outputStream outputErr w =
     (case writer_loop fuel s st outputStream outputErr w of
        (ex, w') \<Rightarrow> writer_deferred ex outputStream outputErr w')"

text \<open>
  \<^verbatim>\<open>Start\<close> (lines 23 to 61) builds the two channels, launches the goroutine and returns
  the pair. \<open>SafeIOStreamWriter_run\<close> is \<^verbatim>\<open>Start\<close> followed by the goroutine it launched,
  run for at most \<open>fuel\<close> calls of the producer.
\<close>

definition SafeIOStreamWriter_Start :: "'p SafeIOStreamWriter \<Rightarrow> world \<Rightarrow> (ref option \<times> ref option) \<times> world" where
  "SafeIOStreamWriter_Start s w =
     (case NewIOStream w of
        (outputStream, w1) \<Rightarrow>
          (case NewErrorPasser w1 of
             (outputErr, w2) \<Rightarrow> ((Some outputStream, Some outputErr), log_event GoFunc w2)))"

definition SafeIOStreamWriter_run ::
  "nat \<Rightarrow> 'p SafeIOStreamWriter \<Rightarrow> 'p \<Rightarrow> world \<Rightarrow> (ref option \<times> ref option) \<times> exit \<times> world"
where
  "SafeIOStreamWriter_run fuel s st w =
     (case SafeIOStreamWriter_Start s w of
        ((outputStream, outputErr), w') \<Rightarrow>
          ((outputStream, outputErr), writer_goroutine fuel s st outputStream outputErr w'))"

section \<open>SafeIOStreamHandler\<close>

text \<open>
  The handler is a \<^verbatim>\<open>func(ctx context.Context, rc io.ReadCloser) error\<close>: a call returns
  \<^verbatim>\<open>nil\<close> or an error, or panics; a closure can keep state between calls. The fields
  of the struct are pointers and function values, each of which can be \<^verbatim>\<open>nil\<close>; the
  finalizer does nothing to the channels, so only its call is recorded.
\<close>

datatype handler_result = ReturnsNil | ReturnsErr error | HandlerPanics string

type_synonym 'h handler = "'h \<Rightarrow> string \<Rightarrow> string \<Rightarrow> handler_result \<times> 'h"

record 'h SafeIOStreamHandler =
  inputStream :: "ref option"
  outputStream :: "ref option"
  inputErr :: "ref option"
  outputErr :: "ref option"
  datapackHandler :: "'h handler option"
  finalizer :: "unit option"

definition NewSafeIOStreamHandler ::
  "ref option \<Rightarrow> ref option \<Rightarrow> 'h handler option \<Rightarrow> unit option \<Rightarrow> 'h SafeIOStreamHandler"
where
  "NewSafeIOStreamHandler inputStream' inputErr' handler' finalizer' =
     \<lparr>inputStream = inputStream', outputStream = None, inputErr = inputErr', outputErr = None,
      datapackHandler = handler', finalizer = finalizer'\<rparr>"

text \<open>
  \<^verbatim>\<open>BuildStream\<close> (lines 86 to 101) returns the pair and leaves the struct and the store
  as the method left them.
\<close>

definition BuildStream ::
  "'h SafeIOStreamHandler \<Rightarrow> world \<Rightarrow> (ref option \<times> ref option) \<times> 'h SafeIOStreamHandler \<times> world"
where
  "BuildStream s w =
     (if inputStream s = None \<or> inputErr s = None then ((None, None), s, w)
      else if datapackHandler s = None then ((inputStream s, inputErr s), s, w)
      else
        (case NewIOStream w of
           (os, w1) \<Rightarrow>
             (case ErrorPasser_Cap (inputErr s) w1 of
                Ok n w2 \<Rightarrow>
                  (case NewErrorPasserWithCap (n + 2) w2 of
                     (oe, w3) \<Rightarrow>
                       ((Some os, Some oe),
                        s\<lparr>outputStream := Some os, outputErr := Some oe\<rparr>, w3))
              | Panic v \<Rightarrow> ((None, None), s, w1)
              | Block \<Rightarrow> ((None, None), s, w1))))"

text \<open>
  The first \<^verbatim>\<open>for\<close> loop of the goroutine (lines 127 to 142). One unit of fuel is one
  \<^verbatim>\<open>Read\<close>. The goroutine reads \<^verbatim>\<open>s.inputStream\<close> and \<^verbatim>\<open>s.datapackHandler\<close> through
  the struct and \<^verbatim>\<open>outputErr\<close> through the local variable of \<^verbatim>\<open>Start\<close>. Calling a method
  of a \<^verbatim>\<open>nil\<close> datapack, or a \<^verbatim>\<open>nil\<close> handler, panics.
\<close>

fun handler_loop ::
  "nat \<Rightarrow> 'h SafeIOStreamHandler \<Rightarrow> 'h \<Rightarrow> ref option \<Rightarrow> world \<Rightarrow> exit \<times> world"
where
  "handler_loop 0 s h outputErr' w = (Unfinished, w)"
| "handler_loop (Suc n) s h outputErr' w =
     (case IOStream_Read (inputStream s) w of
        Panic v \<Rightarrow> (Fault v, w)
      | Block \<Rightarrow> (Hung, w)
      | Ok (datapack, closed) w1 \<Rightarrow>
          if closed then (Normal, w1)
          else
            (case datapack of
               None \<Rightarrow> (Fault nil_dereference, w1)
             | Some d \<Rightarrow>
                 (case ReadCloser d of
                    None \<Rightarrow> handler_loop n s h outputErr' w1
                  | Some rc \<Rightarrow>
                      (case datapackHandler s of
                         None \<Rightarrow> (Fault nil_dereference, w1)
                       | Some f \<Rightarrow>
                           (case f h (Context d) rc of
                              (HandlerPanics v, h') \<Rightarrow>
                                (Fault v, log_event (CallHandler (Context d) rc) w1)
                            | (ReturnsNil, h') \<Rightarrow>
                                handler_loop n s h' outputErr'
                                  (log_event (CallHandler (Context d) rc) w1)
                            | (ReturnsErr e, h') \<Rightarrow>
                                (case ErrorPasser_Put outputErr' e
                                        (log_event (CallHandler (Context d) rc) w1) of
                                   Ok u w2 \<Rightarrow> (Normal, w2)
                                 | Panic v \<Rightarrow>
                                     (Fault v, log_event (CallHandler (Context d) rc) w1)
                                 | Block \<Rightarrow>
                                     (Hung, log_event (CallHandler (Context d) rc) w1)))))))"

text \<open>
  The second loop (lines 145 to 153): poll the upstream Error Channel until it reports
  done, putting every error it hands over onto the output. One unit of fuel is one
  \<^verbatim>\<open>Check\<close>.
\<close>

fun drain_loop :: "nat \<Rightarrow> ref option \<Rightarrow> ref option \<Rightarrow> world \<Rightarrow> exit \<times> world" where
  "drain_loop 0 inputErr' outputErr' w = (Unfinished, w)"
| "drain_loop (Suc n) inputErr' outputErr' w =
     (case ErrorPasser_Check inputErr' w of
        Panic v \<Rightarrow> (Fault v, w)
      | Block \<Rightarrow> (Hung, w)
      | Ok (err, done) w1 \<Rightarrow>
          if done then (Normal, w1)
          else
            (case err of
               None \<Rightarrow> drain_loop n inputErr' outputErr' w1
             | Some e \<Rightarrow>
                 (case ErrorPasser_Put outputErr' e w1 of
                    Ok u w2 \<Rightarrow> drain_loop n inputErr' outputErr' w2
                  | Panic v \<Rightarrow> (Fault v, w1)
                  | Block \<Rightarrow> (Hung, w1))))"

text \<open>
  The body of the goroutine is the first loop and, when that loop ends without a panic,
  the second. Each loop gets the whole fuel.
\<close>

definition handler_body ::
  "nat \<Rightarrow> 'h SafeIOStreamHandler \<Rightarrow> 'h \<Rightarrow> ref option \<Rightarrow> world \<Rightarrow> exit \<times> world"
where
  "handler_body fuel s h outputErr' w =
     (case handler_loop fuel s h outputErr' w of
        (Normal, w1) \<Rightarrow> drain_loop fuel (inputErr s) outputErr' w1
      | (ex, w1) \<Rightarrow> (ex, w1))"

text \<open>
  The deferred function (lines 113 to 125). After a panic it closes the input stream and
  puts the wrapped panic value; in every case it then closes the output Error Channel,
  closes the output Data Channel and calls the finalizer when there is one. A panic
  inside the deferred function is not recovered: the run ends with \<open>Fault\<close>.
\<close>

definition handler_panicked :: "string \<Rightarrow> error" where
  "handler_panicked r = ''SafeIOStreamHandler panicked, err = '' @ r"

definition handler_cleanup ::
  "'h SafeIOStreamHandler \<Rightarrow> ref option \<Rightarrow> ref option \<Rightarrow> world \<Rightarrow> exit \<times> world"
where
  "handler_cleanup s outputStream' outputErr' w =
     (case close_outputs outputStream' outputErr' w of
        Ok u w1 \<Rightarrow>
          (case finalizer s of
             None \<Rightarrow> (Normal, w1)
           | Some f \<Rightarrow> (Normal, log_event CallFinalizer w1))
      | Panic v \<Rightarrow> (Fault v, w)
      | Block \<Rightarrow> (Hung, w))"

definition handler_deferred ::
  "exit \<Rightarrow> 'h SafeIOStreamHandler \<Rightarrow> ref option \<Rightarrow> ref option \<Rightarrow> world \<Rightarrow> exit \<times> world"
where
  "handler_deferred ex s outputStream' outputErr' w =
     (case ex of
        Hung \<Rightarrow> (Hung, w)
      | Unfinished \<Rightarrow> (Unfinished, w)
      | Normal \<Rightarrow> handler_cleanup s outputStream' outputErr' w
      | Fault r \<Rightarrow>
          (case IOStream_Close (inputStream s) w of
             Ok u w1 \<Rightarrow>
               (case ErrorPasser_Put outputErr' (handler_panicked r) w1 of
                  Ok u w2 \<Rightarrow> handler_cleanup s outputStream' outputErr' w2
                | Panic v \<Rightarrow> (Fault v, w1)
                | Block \<Rightarrow> (Hung, w1))
           | Panic v \<Rightarrow> (Fault v, w)
           | Block \<Rightarrow> (Hung, w)))"

definition handler_goroutine ::
  "nat \<Rightarrow> 'h SafeIOStreamHandler \<Rightarrow> 'h \<Rightarrow> ref option \<Rightarrow> ref option \<Rightarrow> world \<Rightarrow> exit \<times> world"
where
  "handler_goroutine fuel s h outputStream' outputErr' w =
     (case handler_body fuel s h outputErr' w of
        (ex, w') \<Rightarrow> handler_deferred ex s outputStream' outputErr' w')"

text \<open>
  \<^verbatim>\<open>Start\<close> (lines 103 to 157) copies the two output fields into local variables, calls
  \<^verbatim>\<open>BuildStream\<close> when one of the copies is \<^verbatim>\<open>nil\<close>, and launches the goroutine, which
  closes over the struct and over the two local variables. It returns nothing; here it
  gives the struct and the store as it left them and the two local variables as the
  goroutine finds them.
\<close>

definition SafeIOStreamHandler_Start ::
  "'h SafeIOStreamHandler \<Rightarrow> world \<Rightarrow> 'h SafeIOStreamHandler \<times> (ref option \<times> ref option) \<times> world"
where
  "SafeIOStreamHandler_Start s w =
     (let outputStream' = outputStream s; outputErr' = outputErr s
      in if outputStream' = None \<or> outputErr' = None
         then (case BuildStream s w of
                 (built, s1, w1) \<Rightarrow> (s1, (outputStream', outputErr'), log_event GoFunc w1))
         else (s, (outputStream', outputErr'), log_event GoFunc w))"

definition SafeIOStreamHandler_run ::
  "nat \<Rightarrow> 'h SafeIOStreamHandler \<Rightarrow> 'h \<Rightarrow> world \<Rightarrow> 'h SafeIOStreamHandler \<times> exit \<times> world"
where
  "SafeIOStreamHandler_run fuel s h w =
     (case SafeIOStreamHandler_Start s w of
        (s', (outputStream', outputErr'), w') \<Rightarrow>
          (s', handler_goroutine fuel s' h outputStream' outputErr' w'))"

section \<open>Notions used to state the properties\<close>

text \<open>
  The first \<open>n\<close> results of a producer, with the state it is left in; the result of a call
  that yields a datapack and announces more; and the events of the loop while every
  write is accepted.
\<close>

fun produce :: "nat \<Rightarrow> 'p DatapackProducer \<Rightarrow> 'p \<Rightarrow> next_result list \<times> 'p" where
  "produce 0 p st = ([], st)"
| "produce (Suc n) p st =
     (case p st of (r, st1) \<Rightarrow> (case produce n p st1 of (rs, st2) \<Rightarrow> (r # rs, st2)))"

definition item :: "pack \<Rightarrow> next_result" where
  "item d = Yields (Some d) True None"

definition writes :: "ref \<Rightarrow> pack list \<Rightarrow> event list" where
  "writes r ds = concat (map (\<lambda>d. [CallNext, CallWrite r (Some d) False]) ds)"

text \<open>The record of events a run of a stage leaves behind.\<close>

definition run_trace :: "'a \<times> exit \<times> world \<Rightarrow> event list" where
  "run_trace x = trace (snd (snd x))"

text \<open>
  The events of the deferred functions (closing a channel, calling the finalizer), and
  those that belong to the cleanup of one output pair.
\<close>

fun is_cleanup :: "event \<Rightarrow> bool" where
  "is_cleanup (CloseErr r) = True"
| "is_cleanup (CloseStream r) = True"
| "is_cleanup CallFinalizer = True"
| "is_cleanup ev = False"

definition cleanup_of :: "ref \<Rightarrow> ref \<Rightarrow> event \<Rightarrow> bool" where
  "cleanup_of os oe ev \<longleftrightarrow> ev = CloseErr oe \<or> ev = CloseStream os \<or> ev = CallFinalizer"

definition finalizer_events :: "'h SafeIOStreamHandler \<Rightarrow> event list" where
  "finalizer_events s = (case finalizer s of None \<Rightarrow> [] | Some f \<Rightarrow> [CallFinalizer])"

text \<open>
  For the handler stage: the upstream moves that hand over the datapacks \<open>ds\<close>; whether
  a handler returns \<^verbatim>\<open>nil\<close> on every datapack of a list that has a reader (with the
  state the handler is left in); and the events of the first loop on such a list.
\<close>

definition feed :: "pack list \<Rightarrow> Datapack writer_move list" where
  "feed ds = map (\<lambda>d. Sends (Some d)) ds"

fun quiet_on :: "'h handler \<Rightarrow> 'h \<Rightarrow> pack list \<Rightarrow> 'h option" where
  "quiet_on f h [] = Some h"
| "quiet_on f h (d # ds) =
     (case ReadCloser d of
        None \<Rightarrow> quiet_on f h ds
      | Some rc \<Rightarrow>
          (case f h (Context d) rc of
             (ReturnsNil, h') \<Rightarrow> quiet_on f h' ds
           | (ReturnsErr e, h') \<Rightarrow> None
           | (HandlerPanics v, h') \<Rightarrow> None))"

definition handled :: "ref \<Rightarrow> pack list \<Rightarrow> event list" where
  "handled r ds =
     concat (map (\<lambda>d. CallRead r #
                       (case ReadCloser d of None \<Rightarrow> [] | Some rc \<Rightarrow> [CallHandler (Context d) rc])) ds)"

text \<open>
  The usual way to run a handler stage: \<^verbatim>\<open>BuildStream()\<close>, then \<^verbatim>\<open>Start()\<close>, then the
  goroutine \<^verbatim>\<open>Start\<close> launched.
\<close>

definition BuildStream_then_Start ::
  "nat \<Rightarrow> 'h SafeIOStreamHandler \<Rightarrow> 'h \<Rightarrow> world
     \<Rightarrow> (ref option \<times> ref option) \<times> 'h SafeIOStreamHandler \<times> exit \<times> world"
where
  "BuildStream_then_Start fuel s h w =
     (case BuildStream s w of (built, s1, w1) \<Rightarrow> (built, SafeIOStreamHandler_run fuel s1 h w1))"

text \<open>
  The errors a record of events puts onto one Error Channel, in order; the errors a
  writing peer still sends before it shuts; and all the errors an upstream Error Channel
  has to give: those it holds and, if it is open, those still to come.
\<close>

fun put_errors :: "ref \<Rightarrow> event list \<Rightarrow> error list" where
  "put_errors r [] = []"
| "put_errors r (CallPut r' e # evs) =
     (if r' = r then e # put_errors r evs else put_errors r evs)"
| "put_errors r (ev # evs) = put_errors r evs"

fun sent :: "'a writer_move list \<Rightarrow> 'a list" where
  "sent [] = []"
| "sent (Sends x # ms) = x # sent ms"
| "sent (Shuts # ms) = []"

definition upstream_errors :: "ErrorPasser \<Rightarrow> error list" where
  "upstream_errors c = e_queue c @ (if e_closed c then [] else sent (e_writer c))"

text \<open>
  Between the store \<open>w\<close> a stage started in and the store \<open>w'\<close> it left, every upstream
  error was relayed: the upstream Error Channel is empty and has reported done, and its
  errors are the last entries of the output Error Channel.
\<close>

definition all_relayed :: "ref \<Rightarrow> ref \<Rightarrow> world \<Rightarrow> world \<Rightarrow> bool" where
  "all_relayed ie oe w w' \<longleftrightarrow>
     e_queue (errs w' ie) = [] \<and> e_closed (errs w' ie)
     \<and> suffix (upstream_errors (errs w ie)) (e_queue (errs w' oe))"

text \<open>The way a run ended and the store it left.\<close>

definition run_exit :: "'a \<times> exit \<times> world \<Rightarrow> exit" where
  "run_exit x = fst (snd x)"

definition run_world :: "'a \<times> exit \<times> world \<Rightarrow> world" where
  "run_world x = snd (snd x)"

section \<open>Example stores, producers and handlers\<close>

definition quiet_stream :: IOStream where
  "quiet_stream = \<lparr>s_closed = False, s_delivered = [], s_writer = []\<rparr>"

definition quiet_err :: ErrorPasser where
  "quiet_err = \<lparr>e_cap = 8, e_queue = [], e_closed = False, e_writer = []\<rparr>"

text \<open>A store with no channel yet, whose consumers take every item.\<close>

definition empty_world :: world where
  "empty_world =
     \<lparr>streams = (\<lambda>r. quiet_stream), errs = (\<lambda>r. quiet_err), next_stream = 0, next_err = 0,
      default_cap = 1, consumer = (\<lambda>r n. Accepts), trace = []\<rparr>"

text \<open>A producer that plays back a list of results and panics when the list is used up.\<close>

fun scripted :: "next_result list DatapackProducer" where
  "scripted [] = (NextPanics ''no result left'', [])"
| "scripted (r # rs) = (r, rs)"

definition pack_a :: pack where
  "pack_a = Pack (Some ''alpha'') ''ctx-a''"

definition pack_b :: pack where
  "pack_b = Pack (Some ''beta'') ''ctx-b''"

definition pack_empty :: pack where
  "pack_empty = Pack None ''ctx-empty''"

definition pack_bad :: pack where
  "pack_bad = Pack (Some ''bad'') ''ctx-bad''"

definition pack_crash :: pack where
  "pack_crash = Pack (Some ''crash'') ''ctx-crash''"

text \<open>
  A store with one upstream pair, both at address 0: the Data Channel's writer still has
  \<open>moves\<close> to make, the Error Channel holds \<open>q\<close>, is closed or not, and its writer has
  \<open>emoves\<close> to make.
\<close>

definition upstream_world ::
  "Datapack writer_move list \<Rightarrow> error list \<Rightarrow> bool \<Rightarrow> error writer_move list \<Rightarrow> world"
where
  "upstream_world moves q cl emoves =
     empty_world
       \<lparr>streams := (\<lambda>r. quiet_stream)(0 := quiet_stream\<lparr>s_writer := moves\<rparr>),
        errs := (\<lambda>r. quiet_err)
                  (0 := \<lparr>e_cap = 4, e_queue = q, e_closed = cl, e_writer = emoves\<rparr>),
        next_stream := 1, next_err := 1\<rparr>"

text \<open>
  A handler that counts its calls, returns an error on the content \<open>bad\<close>, panics on the
  content \<open>crash\<close> and returns \<^verbatim>\<open>nil\<close> otherwise; and stages on the upstream pair at
  address 0, with this handler and with none.
\<close>

fun example_handler :: "nat handler" where
  "example_handler n ctx rc =
     (if rc = ''bad'' then ReturnsErr ''bad input''
      else if rc = ''crash'' then HandlerPanics ''index out of range''
      else ReturnsNil,
      Suc n)"

definition example_stage :: "nat SafeIOStreamHandler" where
  "example_stage = NewSafeIOStreamHandler (Some 0) (Some 0) (Some example_handler) (Some ())"

definition passthrough_stage :: "nat SafeIOStreamHandler" where
  "passthrough_stage = NewSafeIOStreamHandler (Some 0) (Some 0) None None"

text \<open>The example stage after \<^verbatim>\<open>BuildStream\<close> has given it the output pair at address 1.\<close>

definition built_stage :: "nat SafeIOStreamHandler" where
  "built_stage = example_stage\<lparr>outputStream := Some 1, outputErr := Some 1\<rparr>"

text \<open>
  Two upstream pairs. In the first the producer stage has failed: its Error Channel
  holds the error and is closed, and its last datapack \<open>d\<close> is still to be read
  before the Data Channel is shut. In the second the Error Channel holds one error, gets a
  second one and is shut while the handler stage drains it.
\<close>

definition failed_upstream :: "pack \<Rightarrow> world" where
  "failed_upstream d = upstream_world (feed [d] @ [Shuts]) [''upstream failed''] True []"

definition late_errors :: world where
  "late_errors =
     upstream_world (feed [pack_a, pack_bad, pack_b]) [''first''] False [Sends ''second'', Shuts]"

text \<open>An upstream pair whose Data Channel has two datapacks to hand over.\<close>

definition two_packs :: world where
  "two_packs = upstream_world (feed [pack_a, pack_b]) [] False []"

text \<open>A producer that has nothing left: every call returns \<^verbatim>\<open>(nil, false, nil)\<close>.\<close>

definition exhausted_producer :: "unit DatapackProducer" where
  "exhausted_producer u = (Yields None False None, u)"

text \<open>An upstream pair whose second datapack makes the example handler panic.\<close>

definition crash_upstream :: world where
  "crash_upstream = upstream_world (feed [pack_a, pack_crash, pack_b]) [] False []"

section \<open>Facts about the store, the channels and the loops\<close>

subsection \<open>Projections of the store\<close>

text \<open>
  The three ways a store is changed, field by field, and the list functions of the
  statements on an appended list.
\<close>

lemma log_event_simps [simp]:
  "trace (log_event ev w) = trace w @ [ev]"
  "streams (log_event ev w) = streams w"
  "errs (log_event ev w) = errs w"
  "next_stream (log_event ev w) = next_stream w"
  "next_err (log_event ev w) = next_err w"
  "default_cap (log_event ev w) = default_cap w"
  "consumer (log_event ev w) = consumer w"
  by (simp_all add: log_event_def)

lemma set_stream_simps [simp]:
  "trace (set_stream r s w) = trace w"
  "streams (set_stream r s w) = (streams w)(r := s)"
  "errs (set_stream r s w) = errs w"
  "next_stream (set_stream r s w) = next_stream w"
  "next_err (set_stream r s w) = next_err w"
  "default_cap (set_stream r s w) = default_cap w"
  "consumer (set_stream r s w) = consumer w"
  by (simp_all add: set_stream_def)

lemma set_err_simps [simp]:
  "trace (set_err r c w) = trace w"
  "streams (set_err r c w) = streams w"
  "errs (set_err r c w) = (errs w)(r := c)"
  "next_stream (set_err r c w) = next_stream w"
  "next_err (set_err r c w) = next_err w"
  "default_cap (set_err r c w) = default_cap w"
  "consumer (set_err r c w) = consumer w"
  by (simp_all add: set_err_def)

lemma same_queue [simp]: "c\<lparr>e_queue := e_queue c\<rparr> = c"
  by simp

lemma feed_simps [simp]:
  "feed [] = []"
  "feed (d # ds) = Sends (Some d) # feed ds"
  "feed (ds @ ds') = feed ds @ feed ds'"
  by (simp_all add: feed_def)

lemma put_errors_append [simp]: "put_errors r (xs @ ys) = put_errors r xs @ put_errors r ys"
  by (induction r xs rule: put_errors.induct) simp_all

subsection \<open>What one channel operation does\<close>

text \<open>
  A channel operation that returns adds one event to the record; which fields it changes
  is what the later proofs use. Operations through a pointer that is not \<^verbatim>\<open>nil\<close> do
  not panic.
\<close>

lemma Put_Ok:
  assumes "ErrorPasser_Put p e w = Ok u w'"
  shows "\<exists>r. p = Some r \<and> trace w' = trace w @ [CallPut r e] \<and> streams w' = streams w
           \<and> errs w' = (errs w)(r := (errs w r)\<lparr>e_queue := e_queue (errs w r) @ [e]\<rparr>)"
  using assms by (auto simp: ErrorPasser_Put_def Let_def split: option.splits if_splits)

lemma Write_Ok:
  assumes "IOStream_Write p d w = Ok b w'"
  shows "\<exists>r. p = Some r \<and> trace w' = trace w @ [CallWrite r d b] \<and> errs w' = errs w"
  using assms
  by (auto simp: IOStream_Write_def Let_def split: option.splits if_splits reader_move.splits)

lemma Read_Ok:
  assumes "IOStream_Read p w = Ok x w'"
  shows "\<exists>r. p = Some r \<and> trace w' = trace w @ [CallRead r] \<and> errs w' = errs w"
  using assms
  by (auto simp: IOStream_Read_def Let_def split: option.splits if_splits list.splits writer_move.splits)

lemma Check_Ok:
  assumes "ErrorPasser_Check p w = Ok x w'"
  shows "\<exists>r. p = Some r \<and> trace w' = trace w @ [CallCheck r] \<and> streams w' = streams w"
  using assms
  by (auto simp: ErrorPasser_Check_def Let_def split: option.splits if_splits list.splits writer_move.splits)

lemma Put_Some_no_Panic [simp]: "ErrorPasser_Put (Some r) e w \<noteq> Panic v"
  by (simp add: ErrorPasser_Put_def Let_def)

lemma close_outputs_Some:
  "close_outputs (Some os) (Some oe) w =
     Ok () (log_event (CloseStream os) (set_stream os ((streams w os)\<lparr>s_closed := True\<rparr>)
             (log_event (CloseErr oe) (set_err oe ((errs w oe)\<lparr>e_closed := True\<rparr>) w))))"
  by (simp add: close_outputs_def ErrorPasser_Close_def IOStream_Close_def)

lemma handler_cleanup_Some:
  "handler_cleanup s (Some os) (Some oe) w =
     (Normal,
      (case finalizer s of None \<Rightarrow> (\<lambda>x. x) | Some f \<Rightarrow> log_event CallFinalizer)
        (log_event (CloseStream os) (set_stream os ((streams w os)\<lparr>s_closed := True\<rparr>)
             (log_event (CloseErr oe) (set_err oe ((errs w oe)\<lparr>e_closed := True\<rparr>) w)))))"
  by (simp add: handler_cleanup_def close_outputs_Some split: option.splits)

subsection \<open>The producer stage\<close>

text \<open>
  \<^verbatim>\<open>Start\<close> gives a fresh pair. While the producer yields datapacks with
  \<^verbatim>\<open>hasNext = true\<close> and the consumer takes them, the loop hands them over one by one.
  The loop records no cleanup event; the goroutine ends with the two closes and never in
  an unrecovered panic. A call that returns an error, or a datapack with
  \<^verbatim>\<open>hasNext = false\<close>, is the last call; a call that returns no datapack and no error is
  followed by another call, whatever \<^verbatim>\<open>hasNext\<close> says.
\<close>

lemma writer_Start_eq:
  "SafeIOStreamWriter_Start s w =
     ((Some (next_stream w), Some (next_err w)),
      log_event GoFunc
        ((set_err (next_err w) \<lparr>e_cap = default_cap w, e_queue = [], e_closed = False, e_writer = []\<rparr>
           ((set_stream (next_stream w) \<lparr>s_closed = False, s_delivered = [], s_writer = []\<rparr> w)
              \<lparr>next_stream := Suc (next_stream w)\<rparr>))
           \<lparr>next_err := Suc (next_err w)\<rparr>))"
  by (simp add: SafeIOStreamWriter_Start_def NewIOStream_def NewErrorPasser_def
      NewErrorPasserWithCap_def set_stream_def set_err_def)

lemma writer_Start_props:
  assumes "SafeIOStreamWriter_Start s w = (pr, w0)"
  shows "pr = (Some (next_stream w), Some (next_err w))"
    and "streams w0 = (streams w)(next_stream w := \<lparr>s_closed = False, s_delivered = [], s_writer = []\<rparr>)"
    and "errs w0 = (errs w)(next_err w := \<lparr>e_cap = default_cap w, e_queue = [], e_closed = False, e_writer = []\<rparr>)"
    and "consumer w0 = consumer w"
    and "trace w0 = trace w @ [GoFunc]"
  using assms by (auto simp: writer_Start_eq set_stream_def set_err_def)

lemma writer_loop_items:
  "produce (length ds) (datapackProducer s) st = (map item ds, st') \<Longrightarrow>
   \<not> s_closed (streams w os) \<Longrightarrow>
   \<forall>i < length ds. consumer w os (length (s_delivered (streams w os)) + i) = Accepts \<Longrightarrow>
   writer_loop (length ds + m) s st (Some os) oe w =
   writer_loop m s st' (Some os) oe
     (w\<lparr>streams := (streams w)(os := (streams w os)\<lparr>s_delivered := s_delivered (streams w os) @ map Some ds\<rparr>),
        trace := trace w @ writes os ds\<rparr>)"
proof (induction ds arbitrary: st w)
  case Nil
  then show ?case by (simp add: writes_def)
next
  case (Cons d ds)
  obtain r st1 where p: "datapackProducer s st = (r, st1)" by (cases "datapackProducer s st")
  obtain rs st2 where q: "produce (length ds) (datapackProducer s) st1 = (rs, st2)"
    by (cases "produce (length ds) (datapackProducer s) st1")
  from Cons.prems(1) p q have r: "r = item d" and rs: "rs = map item ds" and st2: "st2 = st'"
    by simp_all
  have acc: "consumer w os (length (s_delivered (streams w os))) = Accepts"
    using Cons.prems(3) by force
  let ?w1 = "log_event (CallWrite os (Some d) False)
      (set_stream os ((streams w os)\<lparr>s_delivered := s_delivered (streams w os) @ [Some d]\<rparr>) (log_event CallNext w))"
  have step: "writer_loop (length (d # ds) + m) s st (Some os) oe w = writer_loop (length ds + m) s st1 (Some os) oe ?w1"
    using p r acc Cons.prems(2) by (simp add: item_def IOStream_Write_def Let_def)
  have a3: "\<forall>i < length ds. consumer ?w1 os (length (s_delivered (streams ?w1 os)) + i) = Accepts"
    using Cons.prems(3) by (auto simp: less_Suc_eq_0_disj)
  have a2: "\<not> s_closed (streams ?w1 os)" using Cons.prems(2) by simp
  have a1: "produce (length ds) (datapackProducer s) st1 = (map item ds, st')" using q rs st2 by simp
  have ih: "writer_loop (length ds + m) s st1 (Some os) oe ?w1 =
     writer_loop m s st' (Some os) oe
     (?w1\<lparr>streams := (streams ?w1)(os := (streams ?w1 os)\<lparr>s_delivered := s_delivered (streams ?w1 os) @ map Some ds\<rparr>),
        trace := trace ?w1 @ writes os ds\<rparr>)"
    by (rule Cons.IH [OF a1 a2 a3])
  have eq: "(?w1\<lparr>streams := (streams ?w1)(os := (streams ?w1 os)\<lparr>s_delivered := s_delivered (streams ?w1 os) @ map Some ds\<rparr>),
        trace := trace ?w1 @ writes os ds\<rparr>) = 
     (w\<lparr>streams := (streams w)(os := (streams w os)\<lparr>s_delivered := s_delivered (streams w os) @ map Some (d # ds)\<rparr>),
        trace := trace w @ writes os (d # ds)\<rparr>)"
    by (simp add: log_event_def set_stream_def writes_def)
  show ?case by (simp only: step ih eq)
qed

lemma writer_loop_trace:
  "writer_loop n s st os oe w = (ex, w') \<Longrightarrow>
   \<exists>pre. trace w' = trace w @ pre \<and> filter is_cleanup pre = []"
proof (induction n arbitrary: st w)
  case 0
  then show ?case by simp
next
  case (Suc n)
  obtain r st1 where p: "datapackProducer s st = (r, st1)" by (cases "datapackProducer s st")
  show ?case
  proof (cases r)
    case (NextPanics v)
    with Suc.prems p show ?thesis by auto
  next
    case (Yields datapack hasNext err)
    show ?thesis
    proof (cases err)
      case (Some e)
      with Suc.prems p Yields show ?thesis
        by (auto split: res.splits dest!: Put_Ok)
    next
      case None
      note err = None
      show ?thesis
      proof (cases datapack)
        case None
        with Suc.prems p Yields err
        have "writer_loop n s st1 os oe (log_event CallNext w) = (ex, w')" by simp
        from Suc.IH [OF this] show ?thesis by auto
      next
        case (Some d)
        show ?thesis
        proof (cases "IOStream_Write os datapack (log_event CallNext w)")
          case (Ok b w1)
          from Write_Ok [OF Ok] obtain r where
            t1: "trace w1 = trace w @ [CallNext, CallWrite r datapack b]" by auto
          show ?thesis
          proof (cases "\<not> hasNext \<or> b")
            case True
            with Suc.prems p Yields err Some Ok t1 show ?thesis by auto
          next
            case False
            with Suc.prems p Yields err Some Ok
            have "writer_loop n s st1 os oe w1 = (ex, w')" by simp
            from Suc.IH [OF this] t1 show ?thesis by auto
          qed
        next
          case (Panic v)
          with Suc.prems p Yields err Some show ?thesis by auto
        next
          case Block
          with Suc.prems p Yields err Some show ?thesis by auto
        qed
      qed
    qed
  qed
qed

lemma writer_goroutine_cleanup:
  assumes "writer_goroutine fuel s st (Some os) (Some oe) w = (ex, w')"
  shows "(\<forall>v. ex \<noteq> Fault v) \<and>
         (ex = Normal \<longrightarrow>
            (\<exists>pre. trace w' = trace w @ pre @ [CloseErr oe, CloseStream os] \<and> filter is_cleanup pre = []))"
proof -
  obtain ex1 w1 where l: "writer_loop fuel s st (Some os) (Some oe) w = (ex1, w1)"
    by (cases "writer_loop fuel s st (Some os) (Some oe) w")
  from writer_loop_trace [OF l] obtain pre where
    pre: "trace w1 = trace w @ pre" "filter is_cleanup pre = []" by auto
  show ?thesis
  proof (cases ex1)
    case Normal
    with assms l pre show ?thesis
      by (auto simp: writer_goroutine_def writer_deferred_def close_outputs_Some)
  next
    case (Fault r)
    with assms l pre show ?thesis
      by (auto simp: writer_goroutine_def writer_deferred_def close_outputs_Some
          split: res.splits dest!: Put_Ok)
  next
    case Hung
    with assms l show ?thesis by (auto simp: writer_goroutine_def writer_deferred_def)
  next
    case Unfinished
    with assms l show ?thesis by (auto simp: writer_goroutine_def writer_deferred_def)
  qed
qed

lemma writer_goroutine_no_crash:
  "fst (writer_goroutine fuel s st (Some os) (Some oe) w) \<noteq> Fault v"
  using writer_goroutine_cleanup [of fuel s st os oe w]
  by (cases "writer_goroutine fuel s st (Some os) (Some oe) w") auto

lemma writer_loop_ends_with_the_call:
  assumes "datapackProducer s st = (Yields d hasNext err, st')"
      and "err \<noteq> None \<or> (d \<noteq> None \<and> \<not> hasNext)"
  shows "writer_loop (Suc n) s st os oe w = writer_loop (Suc 0) s st os oe w"
  using assms by (auto split: option.splits res.splits)

lemma writer_loop_goes_on_after_nil:
  assumes "datapackProducer s st = (Yields None hasNext None, st')"
  shows "writer_loop (Suc n) s st os oe w = writer_loop n s st' os oe (log_event CallNext w)"
  using assms by simp

lemma writer_loop_exhausted_producer:
  "writer_loop n (NewSafeIOStreamWriter exhausted_producer) () os oe w =
     (Unfinished, w\<lparr>trace := trace w @ replicate n CallNext\<rparr>)"
proof (induction n arbitrary: w)
  case 0
  then show ?case by simp
next
  case (Suc n)
  then show ?case
    by (simp add: NewSafeIOStreamWriter_def exhausted_producer_def log_event_def
        replicate_append_same)
qed

subsection \<open>The handler stage: the record of events\<close>

text \<open>
  Neither loop of the handler stage records a cleanup event. The goroutine ends with the
  two closes and the finalizer, never in an unrecovered panic when its pointers are not
  \<^verbatim>\<open>nil\<close>, and closes the upstream Data Channel only after a panic.
\<close>

lemma cleanup_of_is_cleanup: "cleanup_of os oe ev \<Longrightarrow> is_cleanup ev"
  by (auto simp: cleanup_of_def)

lemma no_cleanup_of: "filter is_cleanup pre = [] \<Longrightarrow> filter (cleanup_of os oe) pre = []"
  by (auto simp: filter_empty_conv dest: cleanup_of_is_cleanup)

lemma handler_loop_trace:
  "handler_loop n s h oe w = (ex, w') \<Longrightarrow>
   \<exists>pre. trace w' = trace w @ pre \<and> filter is_cleanup pre = []"
proof (induction n arbitrary: h w)
  case 0
  then show ?case by simp
next
  case (Suc n)
  show ?case
  proof (cases "IOStream_Read (inputStream s) w")
    case (Panic v)
    with Suc.prems show ?thesis by auto
  next
    case Block
    with Suc.prems show ?thesis by auto
  next
    case (Ok x w1)
    obtain datapack closed where x: "x = (datapack, closed)" by (cases x)
    from Read_Ok [OF Ok] obtain r where t1: "trace w1 = trace w @ [CallRead r]" by auto
    show ?thesis
    proof (cases closed)
      case True
      with Suc.prems Ok x t1 show ?thesis by auto
    next
      case False
      note open_ = False
      show ?thesis
      proof (cases datapack)
        case None
        with Suc.prems Ok x t1 open_ show ?thesis by auto
      next
        case (Some d)
        note d = Some
        show ?thesis
        proof (cases "ReadCloser d")
          case None
          with Suc.prems Ok x open_ d have "handler_loop n s h oe w1 = (ex, w')" by simp
          from Suc.IH [OF this] t1 show ?thesis by auto
        next
          case (Some rc)
          note rc = Some
          show ?thesis
          proof (cases "datapackHandler s")
            case None
            with Suc.prems Ok x t1 open_ d rc show ?thesis by auto
          next
            case (Some f)
            obtain hr h' where f: "f h (Context d) rc = (hr, h')" by (cases "f h (Context d) rc")
            show ?thesis
            proof (cases hr)
              case ReturnsNil
              with Suc.prems Ok x open_ d rc Some f
              have "handler_loop n s h' oe (log_event (CallHandler (Context d) rc) w1) = (ex, w')"
                by simp
              from Suc.IH [OF this] t1 show ?thesis by auto
            next
              case (ReturnsErr e)
              with Suc.prems Ok x t1 open_ d rc Some f show ?thesis
                by (auto split: res.splits dest!: Put_Ok)
            next
              case (HandlerPanics v)
              with Suc.prems Ok x t1 open_ d rc Some f show ?thesis by auto
            qed
          qed
        qed
      qed
    qed
  qed
qed

lemma drain_loop_trace:
  "drain_loop n ie oe w = (ex, w') \<Longrightarrow>
   \<exists>pre. trace w' = trace w @ pre \<and> filter is_cleanup pre = []"
proof (induction n arbitrary: w)
  case 0
  then show ?case by simp
next
  case (Suc n)
  show ?case
  proof (cases "ErrorPasser_Check ie w")
    case (Panic v)
    with Suc.prems show ?thesis by auto
  next
    case Block
    with Suc.prems show ?thesis by auto
  next
    case (Ok x w1)
    obtain err fin where x: "x = (err, fin)" by (cases x)
    from Check_Ok [OF Ok] obtain r where t1: "trace w1 = trace w @ [CallCheck r]" by auto
    show ?thesis
    proof (cases fin)
      case True
      with Suc.prems Ok x t1 show ?thesis by auto
    next
      case False
      note go = False
      show ?thesis
      proof (cases err)
        case None
        with Suc.prems Ok x go have "drain_loop n ie oe w1 = (ex, w')" by simp
        from Suc.IH [OF this] t1 show ?thesis by auto
      next
        case (Some e)
        show ?thesis
        proof (cases "ErrorPasser_Put oe e w1")
          case (Ok u w2)
          from Put_Ok [OF Ok] obtain r' where t2: "trace w2 = trace w1 @ [CallPut r' e]" by auto
          from Suc.prems \<open>ErrorPasser_Check ie w = Ok x w1\<close> x go Some Ok
          have "drain_loop n ie oe w2 = (ex, w')" by simp
          from Suc.IH [OF this] t1 t2 show ?thesis by auto
        next
          case (Panic v)
          with Suc.prems \<open>ErrorPasser_Check ie w = Ok x w1\<close> x go Some t1 show ?thesis by auto
        next
          case Block
          with Suc.prems \<open>ErrorPasser_Check ie w = Ok x w1\<close> x go Some t1 show ?thesis by auto
        qed
      qed
    qed
  qed
qed

lemma handler_body_trace:
  assumes "handler_body n s h oe w = (ex, w')"
  shows "\<exists>pre. trace w' = trace w @ pre \<and> filter is_cleanup pre = []"
proof -
  obtain ex1 w1 where l: "handler_loop n s h oe w = (ex1, w1)"
    by (cases "handler_loop n s h oe w")
  from handler_loop_trace [OF l] obtain pre1 where
    p1: "trace w1 = trace w @ pre1" "filter is_cleanup pre1 = []" by auto
  show ?thesis
  proof (cases "ex1 = Normal")
    case True
    with assms l have d: "drain_loop n (inputErr s) oe w1 = (ex, w')"
      by (simp add: handler_body_def)
    from drain_loop_trace [OF d] p1 show ?thesis by auto
  next
    case False
    with assms l have "ex = ex1" "w' = w1"
      by (auto simp: handler_body_def split: exit.splits)
    with p1 show ?thesis by auto
  qed
qed

lemma handler_goroutine_cleanup:
  assumes "handler_goroutine fuel s h (Some os) (Some oe) w = (Normal, w')"
      and "inputStream s \<noteq> Some os"
  shows "\<exists>pre. trace w' = trace w @ pre @ [CloseErr oe, CloseStream os] @ finalizer_events s
           \<and> filter (cleanup_of os oe) pre = []"
proof -
  obtain ex1 w1 where b: "handler_body fuel s h (Some oe) w = (ex1, w1)"
    by (cases "handler_body fuel s h (Some oe) w")
  from handler_body_trace [OF b] obtain pre where
    pre: "trace w1 = trace w @ pre" "filter is_cleanup pre = []" by auto
  note nc = no_cleanup_of [OF pre(2), of os oe]
  show ?thesis
  proof (cases ex1)
    case Normal
    with assms b pre nc show ?thesis
      by (auto simp: handler_goroutine_def handler_deferred_def handler_cleanup_Some
          finalizer_events_def split: option.splits)
  next
    case (Fault r)
    with assms b pre nc show ?thesis
      by (auto simp: handler_goroutine_def handler_deferred_def handler_cleanup_Some
          finalizer_events_def IOStream_Close_def cleanup_of_def
          split: option.splits res.splits dest!: Put_Ok)
  next
    case Hung
    with assms b show ?thesis by (auto simp: handler_goroutine_def handler_deferred_def)
  next
    case Unfinished
    with assms b show ?thesis by (auto simp: handler_goroutine_def handler_deferred_def)
  qed
qed

lemma handler_goroutine_no_crash:
  assumes "inputStream s = Some is"
  shows "fst (handler_goroutine fuel s h (Some os) (Some oe) w) \<noteq> Fault v"
proof -
  obtain ex1 w1 where b: "handler_body fuel s h (Some oe) w = (ex1, w1)"
    by (cases "handler_body fuel s h (Some oe) w")
  show ?thesis
    using b assms
    by (cases ex1)
      (auto simp: handler_goroutine_def handler_deferred_def handler_cleanup_Some
        IOStream_Close_def split: res.splits)
qed

lemma upstream_closed_only_after_fault:
  assumes "inputStream s = Some ups" "ups \<noteq> os"
      and "\<forall>v. fst (handler_body fuel s h (Some oe) w) \<noteq> Fault v"
  shows "\<exists>new. trace (snd (handler_goroutine fuel s h (Some os) (Some oe) w)) = trace w @ new
            \<and> CloseStream ups \<notin> set new"
proof -
  obtain ex1 w1 where b: "handler_body fuel s h (Some oe) w = (ex1, w1)"
    by (cases "handler_body fuel s h (Some oe) w")
  from handler_body_trace [OF b] obtain pre where
    pre: "trace w1 = trace w @ pre" "filter is_cleanup pre = []" by auto
  then have np: "CloseStream ups \<notin> set pre"
    by (auto simp: filter_empty_conv)
  show ?thesis
  proof (cases ex1)
    case Normal
    with b pre np assms(2) show ?thesis
      by (intro exI [of _ "pre @ [CloseErr oe, CloseStream os] @ finalizer_events s"])
        (auto simp: handler_goroutine_def handler_deferred_def handler_cleanup_Some
          finalizer_events_def split: option.splits)
  next
    case (Fault r)
    with b assms(3) show ?thesis by simp
  next
    case Hung
    with b pre np show ?thesis
      by (intro exI [of _ pre]) (simp add: handler_goroutine_def handler_deferred_def)
  next
    case Unfinished
    with b pre np show ?thesis
      by (intro exI [of _ pre]) (simp add: handler_goroutine_def handler_deferred_def)
  qed
qed

subsection \<open>The handler stage: the Error Channels\<close>

text \<open>
  The output Error Channel changes only by the puts the record shows. A drain loop that
  ends has moved every upstream error to the output and left the upstream Error Channel
  empty and done; it never panics and leaves the Data Channels alone.
\<close>

lemma drain_loop_effect:
  "drain_loop n (Some ie) (Some oe) w = (ex, w') \<Longrightarrow> ie \<noteq> oe \<Longrightarrow>
   (\<forall>v. ex \<noteq> Fault v) \<and> streams w' = streams w \<and>
   (\<exists>pre. trace w' = trace w @ pre \<and> filter is_cleanup pre = []
        \<and> e_queue (errs w' oe) = e_queue (errs w oe) @ put_errors oe pre
        \<and> (ex = Normal \<longrightarrow>
              put_errors oe pre = upstream_errors (errs w ie)
              \<and> e_queue (errs w' ie) = [] \<and> e_closed (errs w' ie)))"
proof (induction n arbitrary: w)
  case 0
  then show ?case by simp
next
  case (Suc n)
  let ?c = "errs w ie"
  show ?case
  proof (cases "e_queue ?c")
    case (Cons e es)
    let ?w1 = "log_event (CallCheck ie) (set_err ie (?c\<lparr>e_queue := es\<rparr>) w)"
    have chk: "ErrorPasser_Check (Some ie) w = Ok (Some e, False) ?w1"
      using Cons by (simp add: ErrorPasser_Check_def Let_def)
    show ?thesis
    proof (cases "length (e_queue (errs w oe)) < e_cap (errs w oe)")
      case True
      let ?w2 = "log_event (CallPut oe e)
                   (set_err oe ((errs ?w1 oe)\<lparr>e_queue := e_queue (errs ?w1 oe) @ [e]\<rparr>) ?w1)"
      have put: "ErrorPasser_Put (Some oe) e ?w1 = Ok () ?w2"
        using True Suc.prems(2) by (simp add: ErrorPasser_Put_def Let_def)
      have rec: "drain_loop n (Some ie) (Some oe) ?w2 = (ex, w')"
        using Suc.prems(1) chk put by simp
      from Suc.IH [OF rec Suc.prems(2)] obtain pre where
        a: "\<forall>v. ex \<noteq> Fault v" "streams w' = streams ?w2"
        and b: "trace w' = trace ?w2 @ pre" "filter is_cleanup pre = []"
           "e_queue (errs w' oe) = e_queue (errs ?w2 oe) @ put_errors oe pre"
        and c: "ex = Normal \<longrightarrow>
              put_errors oe pre = upstream_errors (errs ?w2 ie)
              \<and> e_queue (errs w' ie) = [] \<and> e_closed (errs w' ie)"
        by blast
      have u: "upstream_errors (errs w ie) = e # upstream_errors (errs ?w2 ie)"
        using Cons Suc.prems(2) by (simp add: upstream_errors_def)
      show ?thesis
        using a b c u Suc.prems(2)
        by (intro conjI exI [of _ "[CallCheck ie, CallPut oe e] @ pre"]) simp_all
    next
      case False
      then have put: "ErrorPasser_Put (Some oe) e ?w1 = Block"
        using Suc.prems(2) by (simp add: ErrorPasser_Put_def Let_def)
      with Suc.prems chk have "ex = Hung" "w' = ?w1" by simp_all
      then show ?thesis
        using Suc.prems(2) by (intro conjI exI [of _ "[CallCheck ie]"]) simp_all
    qed
  next
    case Nil
    note q = Nil
    show ?thesis
    proof (cases "e_closed ?c")
      case True
      with q Suc.prems have "ex = Normal" "w' = log_event (CallCheck ie) w"
        by (simp_all add: ErrorPasser_Check_def Let_def)
      then show ?thesis
        using q True by (intro conjI exI [of _ "[CallCheck ie]"]) (simp_all add: upstream_errors_def)
    next
      case False
      note op = False
      obtain w1 where chk: "ErrorPasser_Check (Some ie) w = Ok (None, False) w1"
        and w1: "trace w1 = trace w @ [CallCheck ie]" "streams w1 = streams w"
           "errs w1 oe = errs w oe"
           "upstream_errors (errs w1 ie) = upstream_errors (errs w ie)"
      proof (cases "e_writer ?c")
        case Nil
        show ?thesis
          using q op Nil Suc.prems(2)
          by (intro that [of "log_event (CallCheck ie) w"]) (simp_all add: ErrorPasser_Check_def Let_def)
      next
        case (Cons mv ms)
        show ?thesis
        proof (cases mv)
          case (Sends e)
          show ?thesis
            using q op Cons Sends Suc.prems(2)
            by (intro that [of "log_event (CallCheck ie)
                   (set_err ie (?c\<lparr>e_queue := [e], e_writer := ms\<rparr>) w)"])
              (simp_all add: ErrorPasser_Check_def upstream_errors_def Let_def)
        next
          case Shuts
          show ?thesis
            using q op Cons Shuts Suc.prems(2)
            by (intro that [of "log_event (CallCheck ie)
                   (set_err ie (?c\<lparr>e_closed := True, e_writer := ms\<rparr>) w)"])
              (simp_all add: ErrorPasser_Check_def upstream_errors_def Let_def)
        qed
      qed
      have rec: "drain_loop n (Some ie) (Some oe) w1 = (ex, w')"
        using Suc.prems(1) chk by simp
      from Suc.IH [OF rec Suc.prems(2)] obtain pre where
        a: "\<forall>v. ex \<noteq> Fault v" "streams w' = streams w1"
        and b: "trace w' = trace w1 @ pre" "filter is_cleanup pre = []"
           "e_queue (errs w' oe) = e_queue (errs w1 oe) @ put_errors oe pre"
        and c: "ex = Normal \<longrightarrow>
              put_errors oe pre = upstream_errors (errs w1 ie)
              \<and> e_queue (errs w' ie) = [] \<and> e_closed (errs w' ie)"
        by blast
      show ?thesis
        using a b c w1
        by (intro conjI exI [of _ "[CallCheck ie] @ pre"]) simp_all
    qed
  qed
qed

lemma handler_loop_effect:
  "handler_loop n s h (Some oe) w = (ex, w') \<Longrightarrow>
   \<exists>pre. trace w' = trace w @ pre \<and> filter is_cleanup pre = []
       \<and> errs w' = (errs w)(oe := (errs w oe)\<lparr>e_queue := e_queue (errs w oe) @ put_errors oe pre\<rparr>)"
proof (induction n arbitrary: h w)
  case 0
  then show ?case by (intro exI [of _ "[]"]) simp
next
  case (Suc n)
  show ?case
  proof (cases "IOStream_Read (inputStream s) w")
    case (Panic v)
    with Suc.prems have "w' = w" by simp
    then show ?thesis by (intro exI [of _ "[]"]) simp
  next
    case Block
    with Suc.prems have "w' = w" by simp
    then show ?thesis by (intro exI [of _ "[]"]) simp
  next
    case (Ok x w1)
    obtain datapack closed where x: "x = (datapack, closed)" by (cases x)
    from Read_Ok [OF Ok] obtain r where
      t1: "trace w1 = trace w @ [CallRead r]" "errs w1 = errs w" by auto
    have base: "\<exists>pre. trace w1 = trace w @ pre \<and> filter is_cleanup pre = []
       \<and> errs w1 = (errs w)(oe := (errs w oe)\<lparr>e_queue := e_queue (errs w oe) @ put_errors oe pre\<rparr>)"
      using t1 by (intro exI [of _ "[CallRead r]"]) simp
    show ?thesis
    proof (cases closed)
      case True
      with Suc.prems Ok x have "w' = w1" by simp
      with base show ?thesis by blast
    next
      case False
      note open_ = False
      show ?thesis
      proof (cases datapack)
        case None
        with Suc.prems Ok x open_ have "w' = w1" by simp
        with base show ?thesis by blast
      next
        case (Some d)
        note d = Some
        show ?thesis
        proof (cases "ReadCloser d")
          case None
          with Suc.prems Ok x open_ d have "handler_loop n s h (Some oe) w1 = (ex, w')" by simp
          from Suc.IH [OF this] obtain pre where
            "trace w' = trace w1 @ pre" "filter is_cleanup pre = []"
            "errs w' = (errs w1)(oe := (errs w1 oe)\<lparr>e_queue := e_queue (errs w1 oe) @ put_errors oe pre\<rparr>)"
            by blast
          then show ?thesis using t1
            by (intro exI [of _ "[CallRead r] @ pre"]) simp
        next
          case (Some rc)
          note rc = Some
          let ?w2 = "log_event (CallHandler (Context d) rc) w1"
          have base2: "\<exists>pre. trace ?w2 = trace w @ pre \<and> filter is_cleanup pre = []
             \<and> errs ?w2 = (errs w)(oe := (errs w oe)\<lparr>e_queue := e_queue (errs w oe) @ put_errors oe pre\<rparr>)"
            using t1 by (intro exI [of _ "[CallRead r, CallHandler (Context d) rc]"]) simp
          show ?thesis
          proof (cases "datapackHandler s")
            case None
            with Suc.prems Ok x open_ d rc have "w' = w1" by simp
            with base show ?thesis by blast
          next
            case (Some f)
            obtain hr h' where f: "f h (Context d) rc = (hr, h')" by (cases "f h (Context d) rc")
            show ?thesis
            proof (cases hr)
              case ReturnsNil
              with Suc.prems Ok x open_ d rc Some f
              have "handler_loop n s h' (Some oe) ?w2 = (ex, w')"
                by simp
              from Suc.IH [OF this] obtain pre where
                "trace w' = trace ?w2 @ pre" "filter is_cleanup pre = []"
                "errs w' = (errs ?w2)(oe := (errs ?w2 oe)\<lparr>e_queue := e_queue (errs ?w2 oe) @ put_errors oe pre\<rparr>)"
                by blast
              then show ?thesis using t1
                by (intro exI [of _ "[CallRead r, CallHandler (Context d) rc] @ pre"]) simp
            next
              case (ReturnsErr e)
              show ?thesis
              proof (cases "length (e_queue (errs w oe)) < e_cap (errs w oe)")
                case True
                with Suc.prems Ok x open_ d rc Some f ReturnsErr t1
                have "ex = Normal"
                  "w' = log_event (CallPut oe e)
                     (set_err oe ((errs w oe)\<lparr>e_queue := e_queue (errs w oe) @ [e]\<rparr>) ?w2)"
                  by (simp_all add: ErrorPasser_Put_def Let_def)
                then show ?thesis using t1
                  by (intro exI [of _ "[CallRead r, CallHandler (Context d) rc, CallPut oe e]"]) simp
              next
                case False
                with Suc.prems Ok x open_ d rc Some f ReturnsErr t1
                have "w' = ?w2"
                  by (simp_all add: ErrorPasser_Put_def Let_def)
                with base2 show ?thesis by blast
              qed
            next
              case (HandlerPanics v)
              with Suc.prems Ok x open_ d rc Some f have "w' = ?w2" by simp
              with base2 show ?thesis by blast
            qed
          qed
        qed
      qed
    qed
  qed
qed

lemma handler_body_effect:
  assumes "handler_body n s h (Some oe) w = (ex, w')" "inputErr s = Some ie" "ie \<noteq> oe"
  shows "\<exists>pre. trace w' = trace w @ pre \<and> filter is_cleanup pre = []
        \<and> e_queue (errs w' oe) = e_queue (errs w oe) @ put_errors oe pre
        \<and> (ex = Normal \<longrightarrow>
              suffix (upstream_errors (errs w ie)) (put_errors oe pre)
              \<and> e_queue (errs w' ie) = [] \<and> e_closed (errs w' ie))"
proof -
  obtain ex1 w1 where l: "handler_loop n s h (Some oe) w = (ex1, w1)"
    by (cases "handler_loop n s h (Some oe) w")
  from handler_loop_effect [OF l] obtain pre1 where
    p1: "trace w1 = trace w @ pre1" "filter is_cleanup pre1 = []"
       "errs w1 = (errs w)(oe := (errs w oe)\<lparr>e_queue := e_queue (errs w oe) @ put_errors oe pre1\<rparr>)"
    by blast
  show ?thesis
  proof (cases "ex1 = Normal")
    case True
    with assms l have d: "drain_loop n (Some ie) (Some oe) w1 = (ex, w')"
      by (simp add: handler_body_def)
    from drain_loop_effect [OF d assms(3)] obtain pre2 where
      p2: "trace w' = trace w1 @ pre2" "filter is_cleanup pre2 = []"
        "e_queue (errs w' oe) = e_queue (errs w1 oe) @ put_errors oe pre2"
        "ex = Normal \<longrightarrow>
              put_errors oe pre2 = upstream_errors (errs w1 ie)
              \<and> e_queue (errs w' ie) = [] \<and> e_closed (errs w' ie)"
      by blast
    have "errs w1 ie = errs w ie" using p1(3) assms(3) by simp
    with p1 p2 show ?thesis
      by (intro exI [of _ "pre1 @ pre2"]) (simp add: suffix_def)
  next
    case False
    with assms l have "ex = ex1" "w' = w1"
      by (auto simp: handler_body_def split: exit.splits)
    with p1 False show ?thesis
      by (intro exI [of _ pre1]) simp
  qed
qed

subsection \<open>The handler stage: building and starting\<close>

text \<open>
  \<^verbatim>\<open>BuildStream\<close> with a handler gives a fresh pair whose Error Channel has the upstream
  capacity plus two; without a handler it gives the upstream pair and changes nothing.
  \<^verbatim>\<open>Start\<close> hands the goroutine the output fields as they were before it called
  \<^verbatim>\<open>BuildStream\<close>. While the handler returns \<^verbatim>\<open>nil\<close>, the first loop reads one datapack
  after the other.
\<close>

lemma BuildStream_built:
  assumes "inputStream s = Some is" "inputErr s = Some ie" "datapackHandler s = Some f"
  shows "BuildStream s w =
     ((Some (next_stream w), Some (next_err w)),
      s\<lparr>outputStream := Some (next_stream w), outputErr := Some (next_err w)\<rparr>,
      (set_err (next_err w) \<lparr>e_cap = e_cap (errs w ie) + 2, e_queue = [], e_closed = False, e_writer = []\<rparr>
         ((set_stream (next_stream w) \<lparr>s_closed = False, s_delivered = [], s_writer = []\<rparr> w)
            \<lparr>next_stream := Suc (next_stream w)\<rparr>))
         \<lparr>next_err := Suc (next_err w)\<rparr>)"
  using assms
  by (simp add: BuildStream_def NewIOStream_def ErrorPasser_Cap_def NewErrorPasserWithCap_def
      set_stream_def set_err_def)

lemma BuildStream_then_Start_built:
  assumes "inputStream s = Some is" "inputErr s = Some ie" "datapackHandler s = Some f"
  shows "\<exists>s1 w0. BuildStream_then_Start fuel s h w =
           ((Some (next_stream w), Some (next_err w)), s1,
            handler_goroutine fuel s1 h (Some (next_stream w)) (Some (next_err w)) w0)
         \<and> inputStream s1 = Some is \<and> inputErr s1 = Some ie \<and> datapackHandler s1 = Some f
         \<and> finalizer s1 = finalizer s
         \<and> outputStream s1 = Some (next_stream w) \<and> outputErr s1 = Some (next_err w)
         \<and> streams w0 = (streams w)(next_stream w := \<lparr>s_closed = False, s_delivered = [], s_writer = []\<rparr>)
         \<and> errs w0 = (errs w)(next_err w :=
              \<lparr>e_cap = e_cap (errs w ie) + 2, e_queue = [], e_closed = False, e_writer = []\<rparr>)
         \<and> consumer w0 = consumer w
         \<and> trace w0 = trace w @ [GoFunc]"
proof -
  let ?s1 = "s\<lparr>outputStream := Some (next_stream w), outputErr := Some (next_err w)\<rparr>"
  obtain w0 where b: "BuildStream s w = ((Some (next_stream w), Some (next_err w)), ?s1, w0)"
    and w0: "streams w0 = (streams w)(next_stream w := \<lparr>s_closed = False, s_delivered = [], s_writer = []\<rparr>)"
      "errs w0 = (errs w)(next_err w :=
              \<lparr>e_cap = e_cap (errs w ie) + 2, e_queue = [], e_closed = False, e_writer = []\<rparr>)"
      "consumer w0 = consumer w" "trace w0 = trace w"
    by (simp add: BuildStream_built [OF assms])
  have "BuildStream_then_Start fuel s h w =
           ((Some (next_stream w), Some (next_err w)), ?s1,
            handler_goroutine fuel ?s1 h (Some (next_stream w)) (Some (next_err w))
              (log_event GoFunc w0))"
    using b by (simp add: BuildStream_then_Start_def SafeIOStreamHandler_run_def
        SafeIOStreamHandler_Start_def Let_def)
  then show ?thesis using assms w0
    by (intro exI [of _ ?s1] exI [of _ "log_event GoFunc w0"]) simp
qed

lemma BuildStream_passthrough:
  "inputStream s = Some a \<Longrightarrow> inputErr s = Some b \<Longrightarrow> datapackHandler s = None \<Longrightarrow>
   BuildStream s w = ((Some a, Some b), s, w)"
  by (simp add: BuildStream_def)

lemma Start_keeps_old_locals:
  "fst (snd (SafeIOStreamHandler_Start s w)) = (outputStream s, outputErr s)"
  by (simp add: SafeIOStreamHandler_Start_def Let_def split: prod.splits)

lemma handler_loop_quiet:
  "inputStream s = Some is \<Longrightarrow> datapackHandler s = Some f \<Longrightarrow>
   quiet_on f h ds = Some h' \<Longrightarrow>
   \<not> s_closed (streams w is) \<Longrightarrow>
   s_writer (streams w is) = feed ds @ rest \<Longrightarrow>
   handler_loop (length ds + m) s h oe w =
   handler_loop m s h' oe
     (w\<lparr>streams := (streams w)(is := (streams w is)\<lparr>s_writer := rest\<rparr>),
        trace := trace w @ handled is ds\<rparr>)"
proof (induction ds arbitrary: h w)
  case Nil
  then have "streams w is = (streams w is)\<lparr>s_writer := rest\<rparr>" by simp
  then have "(streams w)(is := (streams w is)\<lparr>s_writer := rest\<rparr>) = streams w"
    by (metis fun_upd_triv)
  with Nil show ?case by (simp add: handled_def)
next
  case (Cons d ds)
  let ?w0 = "log_event (CallRead is) (set_stream is ((streams w is)\<lparr>s_writer := feed ds @ rest\<rparr>) w)"
  have rd: "IOStream_Read (inputStream s) w = Ok (Some d, False) ?w0"
    using Cons.prems by (simp add: IOStream_Read_def)
  obtain w1 h1 where
    step: "handler_loop (length (d # ds) + m) s h oe w = handler_loop (length ds + m) s h1 oe w1"
    and q: "quiet_on f h1 ds = Some h'"
    and w1: "streams w1 = streams ?w0" "errs w1 = errs w" "next_stream w1 = next_stream w"
       "next_err w1 = next_err w" "default_cap w1 = default_cap w" "consumer w1 = consumer w"
       "trace w1 = trace w @ handled is [d]"
  proof (cases "ReadCloser d")
    case None
    with Cons.prems rd show ?thesis
      by (intro that [of h ?w0]) (simp_all add: handled_def)
  next
    case (Some rc)
    obtain hr h1 where f: "f h (Context d) rc = (hr, h1)" by (cases "f h (Context d) rc")
    with Cons.prems(3) Some have hr: "hr = ReturnsNil" and q: "quiet_on f h1 ds = Some h'"
      by (auto split: handler_result.splits)
    with Cons.prems rd Some f show ?thesis
      by (intro that [of h1 "log_event (CallHandler (Context d) rc) ?w0"]) (simp_all add: handled_def)
  qed
  have a4: "\<not> s_closed (streams w1 is)" using Cons.prems(4) w1 by simp
  have a5: "s_writer (streams w1 is) = feed ds @ rest" using w1 by simp
  have ih: "handler_loop (length ds + m) s h1 oe w1 =
     handler_loop m s h' oe
       (w1\<lparr>streams := (streams w1)(is := (streams w1 is)\<lparr>s_writer := rest\<rparr>),
           trace := trace w1 @ handled is ds\<rparr>)"
    by (rule Cons.IH [OF Cons.prems(1) Cons.prems(2) q a4 a5])
  have eq: "(w1\<lparr>streams := (streams w1)(is := (streams w1 is)\<lparr>s_writer := rest\<rparr>),
           trace := trace w1 @ handled is ds\<rparr>) =
      (w\<lparr>streams := (streams w)(is := (streams w is)\<lparr>s_writer := rest\<rparr>),
        trace := trace w @ handled is (d # ds)\<rparr>)"
    using w1 by (intro world.equality) (simp_all add: handled_def)
  show ?case by (simp only: step ih eq)
qed

subsection \<open>The handler stage: what a run that returns has relayed\<close>

text \<open>
  A goroutine that returns has every error it put in its output Error Channel; and when
  its two loops ended without a panic (normally, or after an error of the handler), the
  upstream Error Channel is empty and done and its errors are the last entries of the
  output Error Channel.
\<close>

lemma errors_relayed_without_fault:
  assumes "inputErr s = Some ie" "ie \<noteq> oe"
      and "handler_goroutine fuel s h (Some os) (Some oe) w = (Normal, w')"
  shows "(\<exists>pre. trace w' = trace w @ pre @ [CloseErr oe, CloseStream os] @ finalizer_events s
             \<and> e_queue (errs w' oe) = e_queue (errs w oe) @ put_errors oe pre)
       \<and> (fst (handler_body fuel s h (Some oe) w) = Normal \<longrightarrow> all_relayed ie oe w w')"
proof -
  obtain ex1 w1 where b: "handler_body fuel s h (Some oe) w = (ex1, w1)"
    by (cases "handler_body fuel s h (Some oe) w")
  from handler_body_effect [OF b assms(1,2)] obtain pre where
    pre: "trace w1 = trace w @ pre"
      "e_queue (errs w1 oe) = e_queue (errs w oe) @ put_errors oe pre"
      "ex1 = Normal \<longrightarrow>
              suffix (upstream_errors (errs w ie)) (put_errors oe pre)
              \<and> e_queue (errs w1 ie) = [] \<and> e_closed (errs w1 ie)"
    by blast
  show ?thesis
  proof (cases ex1)
    case Normal
    with assms(3) b have w': "w' = snd (handler_cleanup s (Some os) (Some oe) w1)"
      by (simp add: handler_goroutine_def handler_deferred_def)
    have tr: "trace w' = trace w1 @ [CloseErr oe, CloseStream os] @ finalizer_events s"
      and q: "e_queue (errs w' oe) = e_queue (errs w1 oe)"
      and up: "errs w' ie = errs w1 ie"
      using assms(2)
      by (simp_all add: w' handler_cleanup_Some finalizer_events_def split: option.splits)
    have "all_relayed ie oe w w'"
      using pre Normal q up by (simp add: all_relayed_def suffix_appendI)
    moreover have "\<exists>pre. trace w' = trace w @ pre @ [CloseErr oe, CloseStream os] @ finalizer_events s
             \<and> e_queue (errs w' oe) = e_queue (errs w oe) @ put_errors oe pre"
      using tr q pre by (intro exI [of _ pre]) simp
    ultimately show ?thesis by blast
  next
    case (Fault r)
    from assms(3) b Fault obtain ups where i: "inputStream s = Some ups"
      by (cases "inputStream s")
        (auto simp: handler_goroutine_def handler_deferred_def IOStream_Close_def)
    let ?w2 = "log_event (CloseStream ups) (set_stream ups ((streams w1 ups)\<lparr>s_closed := True\<rparr>) w1)"
    from assms(3) b Fault i obtain w3 where
      put: "ErrorPasser_Put (Some oe) (handler_panicked r) ?w2 = Ok () w3"
      and w': "w' = snd (handler_cleanup s (Some os) (Some oe) w3)"
      by (auto simp: handler_goroutine_def handler_deferred_def IOStream_Close_def
          split: res.splits)
    from Put_Ok [OF put] have
      w3: "trace w3 = trace w1 @ [CloseStream ups, CallPut oe (handler_panicked r)]"
        "e_queue (errs w3 oe) = e_queue (errs w1 oe) @ [handler_panicked r]"
      by auto
    have tr: "trace w' = trace w3 @ [CloseErr oe, CloseStream os] @ finalizer_events s"
      and q: "e_queue (errs w' oe) = e_queue (errs w3 oe)"
      by (simp_all add: w' handler_cleanup_Some finalizer_events_def split: option.splits)
    have "\<exists>pre. trace w' = trace w @ pre @ [CloseErr oe, CloseStream os] @ finalizer_events s
             \<and> e_queue (errs w' oe) = e_queue (errs w oe) @ put_errors oe pre"
      using tr q pre w3
      by (intro exI [of _ "pre @ [CloseStream ups, CallPut oe (handler_panicked r)]"]) simp
    then show ?thesis using b Fault by simp
  next
    case Hung
    with assms(3) b show ?thesis by (simp add: handler_goroutine_def handler_deferred_def)
  next
    case Unfinished
    with assms(3) b show ?thesis by (simp add: handler_goroutine_def handler_deferred_def)
  qed
qed

subsection \<open>A goroutine returns when its loops have ended\<close>

text \<open>
  A loop that ends in a panic has put nothing, and the drain loop does not panic. So the
  deferred function finds the output Error Channel as the goroutine found it: when there
  was room for one error, its put returns, and the goroutine returns after every loop
  that ended, normally or in a panic.
\<close>

lemma writer_loop_Fault_no_put:
  "writer_loop n s st (Some os) (Some oe) w = (Fault r, w1) \<Longrightarrow> errs w1 = errs w"
proof (induction n arbitrary: st w)
  case 0
  then show ?case by simp
next
  case (Suc n)
  obtain x st1 where p: "datapackProducer s st = (x, st1)" by (cases "datapackProducer s st")
  show ?case
  proof (cases x)
    case (NextPanics v)
    with Suc.prems p show ?thesis by auto
  next
    case (Yields datapack hasNext err)
    show ?thesis
    proof (cases err)
      case (Some e)
      with Suc.prems p Yields show ?thesis by (auto split: res.splits)
    next
      case None
      note err = None
      show ?thesis
      proof (cases datapack)
        case None
        with Suc.prems p Yields err
        have "writer_loop n s st1 (Some os) (Some oe) (log_event CallNext w) = (Fault r, w1)"
          by simp
        from Suc.IH [OF this] show ?thesis by simp
      next
        case (Some d)
        show ?thesis
        proof (cases "IOStream_Write (Some os) datapack (log_event CallNext w)")
          case (Ok b w2)
          from Write_Ok [OF Ok] have e2: "errs w2 = errs w" by auto
          show ?thesis
          proof (cases "\<not> hasNext \<or> b")
            case True
            with Suc.prems p Yields err Some Ok show ?thesis by auto
          next
            case False
            with Suc.prems p Yields err Some Ok
            have "writer_loop n s st1 (Some os) (Some oe) w2 = (Fault r, w1)" by simp
            from Suc.IH [OF this] e2 show ?thesis by simp
          qed
        next
          case (Panic v)
          with Suc.prems p Yields err Some show ?thesis by auto
        next
          case Block
          with Suc.prems p Yields err Some show ?thesis by auto
        qed
      qed
    qed
  qed
qed

lemma handler_loop_Fault_no_put:
  "handler_loop n s h (Some oe) w = (Fault r, w1) \<Longrightarrow> errs w1 = errs w"
proof (induction n arbitrary: h w)
  case 0
  then show ?case by simp
next
  case (Suc n)
  show ?case
  proof (cases "IOStream_Read (inputStream s) w")
    case (Panic v)
    with Suc.prems show ?thesis by auto
  next
    case Block
    with Suc.prems show ?thesis by auto
  next
    case (Ok x w2)
    obtain datapack closed where x: "x = (datapack, closed)" by (cases x)
    from Read_Ok [OF Ok] have e2: "errs w2 = errs w" by auto
    show ?thesis
    proof (cases closed)
      case True
      with Suc.prems Ok x show ?thesis by simp
    next
      case False
      note open_ = False
      show ?thesis
      proof (cases datapack)
        case None
        with Suc.prems Ok x open_ e2 show ?thesis by auto
      next
        case (Some d)
        note d = Some
        show ?thesis
        proof (cases "ReadCloser d")
          case None
          with Suc.prems Ok x open_ d have "handler_loop n s h (Some oe) w2 = (Fault r, w1)"
            by simp
          from Suc.IH [OF this] e2 show ?thesis by simp
        next
          case (Some rc)
          note rc = Some
          show ?thesis
          proof (cases "datapackHandler s")
            case None
            with Suc.prems Ok x open_ d rc e2 show ?thesis by auto
          next
            case (Some f)
            obtain hr h' where f: "f h (Context d) rc = (hr, h')" by (cases "f h (Context d) rc")
            show ?thesis
            proof (cases hr)
              case ReturnsNil
              with Suc.prems Ok x open_ d rc Some f
              have "handler_loop n s h' (Some oe) (log_event (CallHandler (Context d) rc) w2)
                      = (Fault r, w1)"
                by simp
              from Suc.IH [OF this] e2 show ?thesis by simp
            next
              case (ReturnsErr e)
              with Suc.prems Ok x open_ d rc Some f show ?thesis
                by (auto split: res.splits)
            next
              case (HandlerPanics v)
              with Suc.prems Ok x open_ d rc Some f e2 show ?thesis by auto
            qed
          qed
        qed
      qed
    qed
  qed
qed

lemma drain_loop_no_Fault:
  "drain_loop n (Some ie) (Some oe) w = (ex, w') \<Longrightarrow> ex \<noteq> Fault v"
proof (induction n arbitrary: w)
  case 0
  then show ?case by auto
next
  case (Suc n)
  show ?case
  proof (cases "ErrorPasser_Check (Some ie) w")
    case (Panic u)
    then show ?thesis by (simp add: ErrorPasser_Check_def Let_def split: list.splits if_splits writer_move.splits)
  next
    case Block
    with Suc.prems show ?thesis by auto
  next
    case (Ok x w1)
    obtain err fin where x: "x = (err, fin)" by (cases x)
    show ?thesis
    proof (cases fin)
      case True
      with Suc.prems Ok x show ?thesis by auto
    next
      case False
      note go = False
      show ?thesis
      proof (cases err)
        case None
        with Suc.prems Ok x go have "drain_loop n (Some ie) (Some oe) w1 = (ex, w')" by simp
        from Suc.IH [OF this] show ?thesis .
      next
        case (Some e)
        show ?thesis
        proof (cases "ErrorPasser_Put (Some oe) e w1")
          case (Ok u w2)
          from Suc.prems \<open>ErrorPasser_Check (Some ie) w = Ok x w1\<close> x go Some Ok
          have "drain_loop n (Some ie) (Some oe) w2 = (ex, w')" by simp
          from Suc.IH [OF this] show ?thesis .
        next
          case (Panic u)
          then show ?thesis by simp
        next
          case Block
          with Suc.prems \<open>ErrorPasser_Check (Some ie) w = Ok x w1\<close> x go Some show ?thesis by auto
        qed
      qed
    qed
  qed
qed

lemma writer_goroutine_returns:
  assumes "writer_loop fuel s st (Some os) (Some oe) w = (ex1, w1)"
      and "ex1 = Normal \<or> (ex1 = Fault r \<and> length (e_queue (errs w oe)) < e_cap (errs w oe))"
  shows "fst (writer_goroutine fuel s st (Some os) (Some oe) w) = Normal"
proof (cases "ex1 = Normal")
  case True
  with assms(1) show ?thesis
    by (simp add: writer_goroutine_def writer_deferred_def close_outputs_Some)
next
  case False
  with assms(2) have f: "ex1 = Fault r" and room: "length (e_queue (errs w oe)) < e_cap (errs w oe)"
    by auto
  from assms(1) f have "writer_loop fuel s st (Some os) (Some oe) w = (Fault r, w1)" by simp
  then have "errs w1 = errs w" by (rule writer_loop_Fault_no_put)
  with assms(1) f room show ?thesis
    by (simp add: writer_goroutine_def writer_deferred_def close_outputs_Some
        ErrorPasser_Put_def Let_def)
qed

lemma handler_goroutine_returns:
  assumes "handler_body fuel s h (Some oe) w = (ex1, w1)"
      and "inputStream s = Some ups" "inputErr s = Some ie"
      and "ex1 = Normal \<or> (ex1 = Fault r \<and> length (e_queue (errs w oe)) < e_cap (errs w oe))"
  shows "fst (handler_goroutine fuel s h (Some os) (Some oe) w) = Normal"
proof (cases "ex1 = Normal")
  case True
  with assms(1) show ?thesis
    by (simp add: handler_goroutine_def handler_deferred_def handler_cleanup_Some)
next
  case False
  with assms(4) have f: "ex1 = Fault r" and room: "length (e_queue (errs w oe)) < e_cap (errs w oe)"
    by auto
  obtain ex0 w0 where l: "handler_loop fuel s h (Some oe) w = (ex0, w0)"
    by (cases "handler_loop fuel s h (Some oe) w")
  have "ex0 = Fault r \<and> w0 = w1"
  proof (cases "ex0 = Normal")
    case True
    with assms(1,3) l have "drain_loop fuel (Some ie) (Some oe) w0 = (ex1, w1)"
      by (simp add: handler_body_def)
    from drain_loop_no_Fault [OF this] f show ?thesis by blast
  next
    case False
    with assms(1) l f show ?thesis
      by (auto simp: handler_body_def split: exit.splits)
  qed
  with l have "handler_loop fuel s h (Some oe) w = (Fault r, w1)" by simp
  then have "errs w1 = errs w" by (rule handler_loop_Fault_no_put)
  with assms(1,2) f room show ?thesis
    by (simp add: handler_goroutine_def handler_deferred_def handler_cleanup_Some
        IOStream_Close_def ErrorPasser_Put_def Let_def)
qed

section \<open>Which errors reach the output Error Channel\<close>

text \<open>
  Claim C1 says that in every run of the handler stage, also one that ends in a panic,
  every upstream error is drained and relayed before the stage closes its output Error
  Channel. The drain loop stands after the first loop in the body of the goroutine, so a
  panic in the first loop skips it: the deferred function puts its one error and closes.
  Here the upstream producer has failed and its last datapack is still to be read. When
  the handler panics on that datapack, the run returns with the output Error Channel
  closed and holding only the text of the recovered panic; the upstream error is still in
  the upstream channel. When the handler returns an error on the same datapack, or
  returns \<^verbatim>\<open>nil\<close>, the same upstream error is relayed
  (in general: \<open>errors_relayed_without_fault\<close>).
\<close>

theorem C1_panic_drops_upstream_error:
  "run_exit (snd (BuildStream_then_Start 9 example_stage 0 (failed_upstream pack_crash))) = Normal
   \<and> e_closed (errs (run_world (snd (BuildStream_then_Start 9 example_stage 0
                                      (failed_upstream pack_crash)))) 1)
   \<and> e_queue (errs (run_world (snd (BuildStream_then_Start 9 example_stage 0
                                      (failed_upstream pack_crash)))) 1)
       = [''SafeIOStreamHandler panicked, err = index out of range'']
   \<and> e_queue (errs (run_world (snd (BuildStream_then_Start 9 example_stage 0
                                      (failed_upstream pack_crash)))) 0)
       = [''upstream failed'']
   \<and> \<not> all_relayed 0 1 (failed_upstream pack_crash)
         (run_world (snd (BuildStream_then_Start 9 example_stage 0 (failed_upstream pack_crash))))
   \<and> run_exit (snd (BuildStream_then_Start 9 example_stage 0 (failed_upstream pack_bad))) = Normal
   \<and> e_queue (errs (run_world (snd (BuildStream_then_Start 9 example_stage 0
                                      (failed_upstream pack_bad)))) 1)
       = [''bad input'', ''upstream failed'']
   \<and> all_relayed 0 1 (failed_upstream pack_bad)
         (run_world (snd (BuildStream_then_Start 9 example_stage 0 (failed_upstream pack_bad))))
   \<and> run_exit (snd (BuildStream_then_Start 9 example_stage 0 (failed_upstream pack_a))) = Normal
   \<and> e_queue (errs (run_world (snd (BuildStream_then_Start 9 example_stage 0
                                      (failed_upstream pack_a)))) 1)
       = [''upstream failed'']
   \<and> all_relayed 0 1 (failed_upstream pack_a)
         (run_world (snd (BuildStream_then_Start 9 example_stage 0 (failed_upstream pack_a))))"
  by (simp add: run_exit_def run_world_def all_relayed_def upstream_errors_def
      suffix_to_prefix
      failed_upstream_def
      BuildStream_then_Start_def BuildStream_def NewIOStream_def ErrorPasser_Cap_def
      NewErrorPasserWithCap_def SafeIOStreamHandler_run_def SafeIOStreamHandler_Start_def
      example_stage_def NewSafeIOStreamHandler_def upstream_world_def empty_world_def
      quiet_stream_def quiet_err_def pack_crash_def pack_bad_def pack_a_def
      handler_goroutine_def handler_body_def handler_deferred_def handler_cleanup_Some
      handler_panicked_def
      IOStream_Read_def IOStream_Close_def ErrorPasser_Put_def ErrorPasser_Check_def
      Let_def numeral_eq_Suc)

section \<open>When the producer loop calls the producer again\<close>

text \<open>
  Claim C2 says that the loop never calls \<^verbatim>\<open>Next\<close> again once a call has returned
  \<^verbatim>\<open>hasNext = false\<close>, also when the datapack returned with it is \<^verbatim>\<open>nil\<close>. The source
  tests \<^verbatim>\<open>datapack == nil\<close> first and continues, so \<^verbatim>\<open>hasNext\<close> is only looked at after
  a write. Here the first call returns \<^verbatim>\<open>(nil, false, nil)\<close>: the record of the run shows
  a second call of \<^verbatim>\<open>Next\<close>, whose datapack is written. After an error, and after a
  datapack that comes with \<^verbatim>\<open>hasNext = false\<close>, the loop does stop
  (\<open>writer_loop_ends_with_the_call\<close>); a producer that has nothing to give and keeps
  returning \<^verbatim>\<open>(nil, false, nil)\<close> is called without end
  (\<open>writer_loop_exhausted_producer\<close>).
\<close>

theorem C2_next_called_again_after_nil_datapack:
  "run_trace (SafeIOStreamWriter_run 5 (NewSafeIOStreamWriter scripted)
      [Yields None False None, Yields (Some pack_b) False None] empty_world)
   = [GoFunc, CallNext, CallNext, CallWrite 0 (Some pack_b) False, CloseErr 0, CloseStream 0]"
  by (simp add: run_trace_def SafeIOStreamWriter_run_def writer_Start_eq
      NewSafeIOStreamWriter_def empty_world_def writer_goroutine_def writer_deferred_def
      close_outputs_Some IOStream_Write_def numeral_eq_Suc)

section \<open>Start without BuildStream\<close>

text \<open>
  Claim C3 says that \<^verbatim>\<open>Start()\<close> without a prior \<^verbatim>\<open>BuildStream()\<close> builds the output pair
  and that the goroutine works on that pair. \<^verbatim>\<open>Start\<close> copies \<^verbatim>\<open>s.outputStream\<close> and
  \<^verbatim>\<open>s.outputErr\<close> into local variables before it calls \<^verbatim>\<open>BuildStream\<close>, and the
  goroutine uses the local variables, which are still \<^verbatim>\<open>nil\<close>. Here the stage gets the
  pair at address 1, but the goroutine's put of the handler error panics, the deferred
  function closes the upstream Data Channel and panics again on its own put, and the run
  ends in that panic: the pair on the stage has received nothing and is never closed.
\<close>

theorem C3_start_without_build_uses_nil_pair:
  "outputStream (fst (SafeIOStreamHandler_run 9 example_stage 0 late_errors)) = Some 1
   \<and> outputErr (fst (SafeIOStreamHandler_run 9 example_stage 0 late_errors)) = Some 1
   \<and> fst (snd (SafeIOStreamHandler_Start example_stage late_errors)) = (None, None)
   \<and> run_exit (SafeIOStreamHandler_run 9 example_stage 0 late_errors) = Fault nil_dereference
   \<and> run_trace (SafeIOStreamHandler_run 9 example_stage 0 late_errors)
       = [GoFunc, CallRead 0, CallHandler ''ctx-a'' ''alpha'',
          CallRead 0, CallHandler ''ctx-bad'' ''bad'', CloseStream 0]
   \<and> e_queue (errs (run_world (SafeIOStreamHandler_run 9 example_stage 0 late_errors)) 1) = []
   \<and> \<not> e_closed (errs (run_world (SafeIOStreamHandler_run 9 example_stage 0 late_errors)) 1)
   \<and> \<not> s_closed (streams (run_world (SafeIOStreamHandler_run 9 example_stage 0 late_errors)) 1)"
  by (simp add: run_exit_def run_world_def run_trace_def late_errors_def
      BuildStream_def NewIOStream_def ErrorPasser_Cap_def
      NewErrorPasserWithCap_def SafeIOStreamHandler_run_def SafeIOStreamHandler_Start_def
      example_stage_def NewSafeIOStreamHandler_def upstream_world_def empty_world_def
      quiet_stream_def quiet_err_def pack_a_def pack_bad_def
      handler_goroutine_def handler_body_def handler_deferred_def
      IOStream_Read_def IOStream_Close_def ErrorPasser_Put_def Let_def numeral_eq_Suc)

section \<open>A stage without a handler\<close>

text \<open>
  Claim C4 says that a stage without a handler returns the upstream pair from
  \<^verbatim>\<open>BuildStream()\<close> and never starts a task. The first half holds
  (\<open>BuildStream_passthrough\<close>: the same addresses, struct and store untouched).
  \<^verbatim>\<open>Start\<close>, however, does not look at the handler: it launches the goroutine, which
  takes a datapack from the upstream Data Channel, calls the \<^verbatim>\<open>nil\<close> handler, closes
  the upstream Data Channel in the deferred function and ends in the panic of the put
  through the \<^verbatim>\<open>nil\<close> output Error Channel.
\<close>

theorem C4_start_without_handler_launches_goroutine:
  "BuildStream passthrough_stage two_packs = ((Some 0, Some 0), passthrough_stage, two_packs)
   \<and> run_trace (SafeIOStreamHandler_run 9 passthrough_stage 0 two_packs)
       = [GoFunc, CallRead 0, CloseStream 0]
   \<and> run_exit (SafeIOStreamHandler_run 9 passthrough_stage 0 two_packs) = Fault nil_dereference
   \<and> s_closed (streams (run_world (SafeIOStreamHandler_run 9 passthrough_stage 0 two_packs)) 0)
   \<and> s_writer (streams (run_world (SafeIOStreamHandler_run 9 passthrough_stage 0 two_packs)) 0)
       = feed [pack_b]"
  by (simp add: run_exit_def run_world_def run_trace_def two_packs_def
      BuildStream_def SafeIOStreamHandler_run_def SafeIOStreamHandler_Start_def
      passthrough_stage_def NewSafeIOStreamHandler_def upstream_world_def empty_world_def
      quiet_stream_def quiet_err_def pack_a_def
      handler_goroutine_def handler_body_def handler_deferred_def
      IOStream_Read_def IOStream_Close_def ErrorPasser_Put_def Let_def numeral_eq_Suc)

section \<open>A panic of the handler\<close>

text \<open>
  Claim C5. A handler stage is built and started on an upstream Data Channel that will
  hand over the datapacks \<open>ds\<close>, then \<open>d\<close>, then whatever \<open>rest\<close> says. The handler
  returns \<^verbatim>\<open>nil\<close> on \<open>ds\<close> and panics with \<open>v\<close> on \<open>d\<close>. Then the goroutine returns, and
  after the read and the handler call for \<open>d\<close> it has done exactly this: closed the
  upstream Data Channel, put one error on its output Error Channel, namely the text
  \<^verbatim>\<open>SafeIOStreamHandler panicked, err = \<close> followed by \<open>v\<close>, and run the cleanup.
  Nothing after \<open>d\<close> was read (\<open>rest\<close> is still with the upstream writer) or handled,
  the output Error Channel holds that one error and nothing else, and a write on the
  upstream Data Channel now reports \<^verbatim>\<open>alreadyClosed = true\<close>.
\<close>

theorem C5_handler_panic:
  assumes "inputStream s = Some is" "inputErr s = Some ie" "datapackHandler s = Some f"
      and "is < next_stream w"
      and "\<not> s_closed (streams w is)"
      and "s_writer (streams w is) = feed (ds @ [d]) @ rest"
      and "quiet_on f h ds = Some h'"
      and "ReadCloser d = Some rc"
      and "fst (f h' (Context d) rc) = HandlerPanics v"
      and "length ds < fuel"
  shows "\<exists>s' w'. BuildStream_then_Start fuel s h w =
            ((Some (next_stream w), Some (next_err w)), s', Normal, w')
         \<and> trace w' = trace w @ [GoFunc] @ handled is ds
              @ [CallRead is, CallHandler (Context d) rc,
                 CloseStream is, CallPut (next_err w) (''SafeIOStreamHandler panicked, err = '' @ v),
                 CloseErr (next_err w), CloseStream (next_stream w)]
              @ finalizer_events s
         \<and> s_closed (streams w' is)
         \<and> s_writer (streams w' is) = rest
         \<and> e_queue (errs w' (next_err w)) = [''SafeIOStreamHandler panicked, err = '' @ v]
         \<and> e_closed (errs w' (next_err w))
         \<and> IOStream_Write (Some is) x w' = Ok True (log_event (CallWrite is x True) w')"
proof -
  let ?os = "next_stream w" and ?oe = "next_err w"
  from BuildStream_then_Start_built [OF assms(1-3), of fuel h w] obtain s1 w0 where
    run: "BuildStream_then_Start fuel s h w =
           ((Some ?os, Some ?oe), s1, handler_goroutine fuel s1 h (Some ?os) (Some ?oe) w0)"
    and s1: "inputStream s1 = Some is" "inputErr s1 = Some ie" "datapackHandler s1 = Some f"
       "finalizer s1 = finalizer s"
    and w0: "streams w0 = (streams w)(?os := \<lparr>s_closed = False, s_delivered = [], s_writer = []\<rparr>)"
       "errs w0 = (errs w)(?oe := \<lparr>e_cap = e_cap (errs w ie) + 2, e_queue = [], e_closed = False, e_writer = []\<rparr>)"
       "trace w0 = trace w @ [GoFunc]"
    by blast
  have neq: "is \<noteq> ?os" using assms(4) by simp
  obtain m where fuel: "fuel = length ds + Suc m"
    using assms(10) less_imp_Suc_add by fastforce
  define w1 where "w1 = w0\<lparr>streams := (streams w0)(is := (streams w0 is)\<lparr>s_writer := Sends (Some d) # rest\<rparr>),
        trace := trace w0 @ handled is ds\<rparr>"
  have loop1: "handler_loop fuel s1 h (Some ?oe) w0 = handler_loop (Suc m) s1 h' (Some ?oe) w1"
    unfolding fuel w1_def
    by (rule handler_loop_quiet [OF s1(1) s1(3) assms(7)]) (use assms(5,6) w0 neq in simp_all)
  obtain h'' where hp: "f h' (Context d) rc = (HandlerPanics v, h'')"
    using assms(9) by (cases "f h' (Context d) rc") simp
  have w1: "streams w1 is = (streams w is)\<lparr>s_writer := Sends (Some d) # rest\<rparr>"
      "streams w1 ?os = \<lparr>s_closed = False, s_delivered = [], s_writer = []\<rparr>"
      "errs w1 = errs w0" "trace w1 = trace w @ [GoFunc] @ handled is ds"
    using neq by (simp_all add: w1_def w0)
  obtain w2 where loop2: "handler_loop (Suc m) s1 h' (Some ?oe) w1 = (Fault v, w2)"
    and w2: "streams w2 is = (streams w is)\<lparr>s_writer := rest\<rparr>"
       "streams w2 ?os = \<lparr>s_closed = False, s_delivered = [], s_writer = []\<rparr>"
       "errs w2 = errs w0"
       "trace w2 = trace w1 @ [CallRead is, CallHandler (Context d) rc]"
    using s1 w1 hp assms(5,8) neq by (simp add: IOStream_Read_def)
  have body: "handler_body fuel s1 h (Some ?oe) w0 = (Fault v, w2)"
    using loop1 loop2 by (simp add: handler_body_def)
  obtain w3 where gor: "handler_goroutine fuel s1 h (Some ?os) (Some ?oe) w0 = (Normal, w3)"
    and w3: "streams w3 is = (streams w is)\<lparr>s_writer := rest, s_closed := True\<rparr>"
       "errs w3 ?oe = \<lparr>e_cap = e_cap (errs w ie) + 2, e_queue = [handler_panicked v], e_closed = True, e_writer = []\<rparr>"
       "trace w3 = trace w2 @ [CloseStream is, CallPut ?oe (handler_panicked v),
                 CloseErr ?oe, CloseStream ?os] @ finalizer_events s"
    using body s1 w2 w0 neq
    by (simp add: handler_goroutine_def handler_deferred_def IOStream_Close_def
        ErrorPasser_Put_def handler_cleanup_Some finalizer_events_def split: option.splits)
  show ?thesis using run gor w3 w2 w1
    by (simp add: IOStream_Write_def handler_panicked_def)
qed

theorem C5_witness:
  "\<exists>s' w'. BuildStream_then_Start 9 example_stage 0
              (upstream_world (feed [pack_a, pack_empty, pack_crash, pack_b]) [] False [])
            = ((Some 1, Some 1), s', Normal, w')
         \<and> trace w' = [GoFunc, CallRead 0, CallHandler ''ctx-a'' ''alpha'', CallRead 0,
                        CallRead 0, CallHandler ''ctx-crash'' ''crash'',
                        CloseStream 0,
                        CallPut 1 ''SafeIOStreamHandler panicked, err = index out of range'',
                        CloseErr 1, CloseStream 1, CallFinalizer]
         \<and> s_closed (streams w' 0)
         \<and> s_writer (streams w' 0) = feed [pack_b]
         \<and> e_queue (errs w' 1) = [''SafeIOStreamHandler panicked, err = index out of range'']
         \<and> e_closed (errs w' 1)
         \<and> IOStream_Write (Some 0) (Some pack_b) w'
             = Ok True (log_event (CallWrite 0 (Some pack_b) True) w')"
  using C5_handler_panic [of example_stage 0 0 example_handler
      "upstream_world (feed [pack_a, pack_empty, pack_crash, pack_b]) [] False []"
      "[pack_a, pack_empty]" pack_crash "feed [pack_b]" 0 1 "''crash''"
      "''index out of range''" 9 "Some pack_b"]
  by (simp add: example_stage_def NewSafeIOStreamHandler_def upstream_world_def
      empty_world_def quiet_stream_def pack_a_def pack_empty_def pack_crash_def
      handled_def finalizer_events_def)

section \<open>The producer stage delivers what the producer yields\<close>

text \<open>
  Claim C6. A producer whose first \<open>N - 1\<close> calls yield the datapacks \<open>ds\<close> with
  \<^verbatim>\<open>hasNext = true\<close> and whose \<open>N\<close>-th call yields \<open>d\<close> with \<^verbatim>\<open>hasNext = false\<close>, no call
  returning an error, is run by \<^verbatim>\<open>Start\<close> against a consumer that takes every item.
  Then the goroutine returns; the output Data Channel has handed over exactly
  \<open>ds @ [d]\<close>, in that order, and is closed, so the next \<^verbatim>\<open>Read\<close> reports closed; the
  output Error Channel is empty and closed, so \<^verbatim>\<open>Check\<close> reports done without an error.
\<close>

theorem C6_all_items_delivered:
  assumes "produce (length ds) (datapackProducer s) st = (map item ds, st')"
      and "fst (datapackProducer s st') = Yields (Some d) False None"
      and "\<forall>i \<le> length ds. consumer w (next_stream w) i = Accepts"
      and "length ds < fuel"
  shows "\<exists>w'. SafeIOStreamWriter_run fuel s st w = ((Some (next_stream w), Some (next_err w)), Normal, w')
           \<and> s_delivered (streams w' (next_stream w)) = map Some (ds @ [d])
           \<and> s_closed (streams w' (next_stream w))
           \<and> IOStream_Read (Some (next_stream w)) w' = Ok (None, True) (log_event (CallRead (next_stream w)) w')
           \<and> e_queue (errs w' (next_err w)) = []
           \<and> e_closed (errs w' (next_err w))
           \<and> ErrorPasser_Check (Some (next_err w)) w' = Ok (None, True) (log_event (CallCheck (next_err w)) w')"
proof -
  let ?os = "next_stream w" and ?oe = "next_err w"
  obtain pr w0 where st: "SafeIOStreamWriter_Start s w = (pr, w0)"
    by (cases "SafeIOStreamWriter_Start s w")
  note w0 = writer_Start_props [OF st]
  obtain m where fuel: "fuel = length ds + Suc m"
    using assms(4) less_imp_Suc_add by fastforce
  define w1 where "w1 = w0\<lparr>streams := (streams w0)(?os := (streams w0 ?os)\<lparr>s_delivered := s_delivered (streams w0 ?os) @ map Some ds\<rparr>),
        trace := trace w0 @ writes ?os ds\<rparr>"
  have loop1: "writer_loop fuel s st (Some ?os) (Some ?oe) w0 = writer_loop (Suc m) s st' (Some ?os) (Some ?oe) w1"
    unfolding fuel w1_def
    by (rule writer_loop_items [OF assms(1)]) (use assms(3) w0 in simp_all)
  obtain st'' where nx: "datapackProducer s st' = (Yields (Some d) False None, st'')"
    using assms(2) by (cases "datapackProducer s st'") simp
  have w1: "streams w1 ?os = \<lparr>s_closed = False, s_delivered = map Some ds, s_writer = []\<rparr>"
      "consumer w1 = consumer w" "errs w1 = errs w0"
    by (simp_all add: w1_def w0)
  obtain w2 where loop2: "writer_loop (Suc m) s st' (Some ?os) (Some ?oe) w1 = (Normal, w2)"
    and w2: "streams w2 ?os = \<lparr>s_closed = False, s_delivered = map Some (ds @ [d]), s_writer = []\<rparr>"
       "errs w2 = errs w0"
    using nx w1 assms(3) by (simp add: IOStream_Write_def)
  obtain w3 where gor: "writer_goroutine fuel s st (Some ?os) (Some ?oe) w0 = (Normal, w3)"
    and w3: "streams w3 ?os = \<lparr>s_closed = True, s_delivered = map Some (ds @ [d]), s_writer = []\<rparr>"
       "errs w3 ?oe = \<lparr>e_cap = default_cap w, e_queue = [], e_closed = True, e_writer = []\<rparr>"
    using loop1 loop2 w2 w0 by (simp add: writer_goroutine_def writer_deferred_def close_outputs_Some)
  have "SafeIOStreamWriter_run fuel s st w = ((Some ?os, Some ?oe), Normal, w3)"
    using st w0(1) gor by (simp add: SafeIOStreamWriter_run_def)
  then show ?thesis using w3
    by (simp add: IOStream_Read_def ErrorPasser_Check_def)
qed

theorem C6_witness:
  "\<exists>w'. SafeIOStreamWriter_run 5 (NewSafeIOStreamWriter scripted)
            [item pack_a, Yields (Some pack_b) False None] empty_world
          = ((Some 0, Some 0), Normal, w')
       \<and> s_delivered (streams w' 0) = [Some pack_a, Some pack_b]
       \<and> s_closed (streams w' 0)
       \<and> IOStream_Read (Some 0) w' = Ok (None, True) (log_event (CallRead 0) w')
       \<and> e_queue (errs w' 0) = []
       \<and> e_closed (errs w' 0)
       \<and> ErrorPasser_Check (Some 0) w' = Ok (None, True) (log_event (CallCheck 0) w')"
  using C6_all_items_delivered [of "[pack_a]" "NewSafeIOStreamWriter scripted"
      "[item pack_a, Yields (Some pack_b) False None]" "[Yields (Some pack_b) False None]"
      pack_b empty_world 5]
  by (simp add: NewSafeIOStreamWriter_def empty_world_def)

section \<open>A producer error ends the stream\<close>

text \<open>
  Claim C7. The \<open>k\<close>-th call of the producer returns the error \<open>e\<close> (whatever datapack
  and \<^verbatim>\<open>hasNext\<close> come with it); the \<open>k - 1\<close> calls before it yield the datapacks \<open>ds\<close>
  with \<^verbatim>\<open>hasNext = true\<close> and no error. The consumer takes those items, and the Error
  Channel \<^verbatim>\<open>NewErrorPasser\<close> builds has room for one error. Then the goroutine returns;
  the output Data Channel has handed over exactly \<open>ds\<close> and is closed; the output Error
  Channel holds exactly \<open>e\<close> and is closed, so \<^verbatim>\<open>Check\<close> gives \<open>e\<close> and then done.
\<close>

theorem C7_error_ends_the_stream:
  assumes "produce (length ds) (datapackProducer s) st = (map item ds, st')"
      and "fst (datapackProducer s st') = Yields d hasNext (Some e)"
      and "\<forall>i < length ds. consumer w (next_stream w) i = Accepts"
      and "0 < default_cap w"
      and "length ds < fuel"
  shows "\<exists>w' w1 w2. SafeIOStreamWriter_run fuel s st w = ((Some (next_stream w), Some (next_err w)), Normal, w')
           \<and> s_delivered (streams w' (next_stream w)) = map Some ds
           \<and> s_closed (streams w' (next_stream w))
           \<and> IOStream_Read (Some (next_stream w)) w' = Ok (None, True) (log_event (CallRead (next_stream w)) w')
           \<and> e_queue (errs w' (next_err w)) = [e]
           \<and> e_closed (errs w' (next_err w))
           \<and> ErrorPasser_Check (Some (next_err w)) w' = Ok (Some e, False) w1
           \<and> ErrorPasser_Check (Some (next_err w)) w1 = Ok (None, True) w2"
proof -
  let ?os = "next_stream w" and ?oe = "next_err w"
  obtain pr w0 where st: "SafeIOStreamWriter_Start s w = (pr, w0)"
    by (cases "SafeIOStreamWriter_Start s w")
  note w0 = writer_Start_props [OF st]
  obtain m where fuel: "fuel = length ds + Suc m"
    using assms(5) less_imp_Suc_add by fastforce
  define w1 where "w1 = w0\<lparr>streams := (streams w0)(?os := (streams w0 ?os)\<lparr>s_delivered := s_delivered (streams w0 ?os) @ map Some ds\<rparr>),
        trace := trace w0 @ writes ?os ds\<rparr>"
  have loop1: "writer_loop fuel s st (Some ?os) (Some ?oe) w0 = writer_loop (Suc m) s st' (Some ?os) (Some ?oe) w1"
    unfolding fuel w1_def
    by (rule writer_loop_items [OF assms(1)]) (use assms(3) w0 in simp_all)
  obtain st'' where nx: "datapackProducer s st' = (Yields d hasNext (Some e), st'')"
    using assms(2) by (cases "datapackProducer s st'") simp
  have w1: "streams w1 ?os = \<lparr>s_closed = False, s_delivered = map Some ds, s_writer = []\<rparr>"
      "errs w1 = errs w0"
    by (simp_all add: w1_def w0)
  obtain w2 where loop2: "writer_loop (Suc m) s st' (Some ?os) (Some ?oe) w1 = (Normal, w2)"
    and w2: "streams w2 = streams w1"
       "errs w2 ?oe = \<lparr>e_cap = default_cap w, e_queue = [e], e_closed = False, e_writer = []\<rparr>"
    using nx w1 w0 assms(4) by (simp add: ErrorPasser_Put_def)
  obtain w3 where gor: "writer_goroutine fuel s st (Some ?os) (Some ?oe) w0 = (Normal, w3)"
    and w3: "streams w3 ?os = \<lparr>s_closed = True, s_delivered = map Some ds, s_writer = []\<rparr>"
       "errs w3 ?oe = \<lparr>e_cap = default_cap w, e_queue = [e], e_closed = True, e_writer = []\<rparr>"
    using loop1 loop2 w2 w1 by (simp add: writer_goroutine_def writer_deferred_def close_outputs_Some)
  have "SafeIOStreamWriter_run fuel s st w = ((Some ?os, Some ?oe), Normal, w3)"
    using st w0(1) gor by (simp add: SafeIOStreamWriter_run_def)
  then show ?thesis using w3
    by (simp add: IOStream_Read_def ErrorPasser_Check_def)
qed

theorem C7_witness:
  "\<exists>w' w1 w2. SafeIOStreamWriter_run 5 (NewSafeIOStreamWriter scripted)
            [item pack_a, Yields None True (Some ''disk failure'')] empty_world
          = ((Some 0, Some 0), Normal, w')
       \<and> s_delivered (streams w' 0) = [Some pack_a]
       \<and> s_closed (streams w' 0)
       \<and> IOStream_Read (Some 0) w' = Ok (None, True) (log_event (CallRead 0) w')
       \<and> e_queue (errs w' 0) = [''disk failure'']
       \<and> e_closed (errs w' 0)
       \<and> ErrorPasser_Check (Some 0) w' = Ok (Some ''disk failure'', False) w1
       \<and> ErrorPasser_Check (Some 0) w1 = Ok (None, True) w2"
  using C7_error_ends_the_stream [of "[pack_a]" "NewSafeIOStreamWriter scripted"
      "[item pack_a, Yields None True (Some ''disk failure'')]"
      "[Yields None True (Some ''disk failure'')]" None True "''disk failure''" empty_world 5]
  by (simp add: NewSafeIOStreamWriter_def empty_world_def)

section \<open>A consumer that closes early stops the producer stage\<close>

text \<open>
  Claim C8. The consumer takes the first \<open>m\<close> items \<open>ds\<close> of the output Data Channel and
  then closes it, and the producer has a further datapack \<open>d\<close> to yield. Then the write of
  \<open>d\<close> reports \<^verbatim>\<open>alreadyClosed = true\<close>; that write is the last thing the loop does, so
  \<^verbatim>\<open>Next\<close> has been called \<open>m + 1\<close> times and is not called again; the goroutine returns
  with the Error Channel and the Data Channel closed.
\<close>

theorem C8_consumer_closes_early:
  assumes "produce (length ds) (datapackProducer s) st = (map item ds, st')"
      and "fst (datapackProducer s st') = Yields (Some d) hasNext None"
      and "\<forall>i < length ds. consumer w (next_stream w) i = Accepts"
      and "consumer w (next_stream w) (length ds) = ClosesInstead"
      and "length ds < fuel"
  shows "\<exists>w'. SafeIOStreamWriter_run fuel s st w = ((Some (next_stream w), Some (next_err w)), Normal, w')
           \<and> trace w' = trace w @ [GoFunc] @ writes (next_stream w) ds
                @ [CallNext, CallWrite (next_stream w) (Some d) True,
                   CloseErr (next_err w), CloseStream (next_stream w)]
           \<and> s_delivered (streams w' (next_stream w)) = map Some ds
           \<and> s_closed (streams w' (next_stream w))
           \<and> e_closed (errs w' (next_err w))"
proof -
  let ?os = "next_stream w" and ?oe = "next_err w"
  obtain pr w0 where st: "SafeIOStreamWriter_Start s w = (pr, w0)"
    by (cases "SafeIOStreamWriter_Start s w")
  note w0 = writer_Start_props [OF st]
  obtain m where fuel: "fuel = length ds + Suc m"
    using assms(5) less_imp_Suc_add by fastforce
  define w1 where "w1 = w0\<lparr>streams := (streams w0)(?os := (streams w0 ?os)\<lparr>s_delivered := s_delivered (streams w0 ?os) @ map Some ds\<rparr>),
        trace := trace w0 @ writes ?os ds\<rparr>"
  have loop1: "writer_loop fuel s st (Some ?os) (Some ?oe) w0 = writer_loop (Suc m) s st' (Some ?os) (Some ?oe) w1"
    unfolding fuel w1_def
    by (rule writer_loop_items [OF assms(1)]) (use assms(3) w0 in simp_all)
  obtain st'' where nx: "datapackProducer s st' = (Yields (Some d) hasNext None, st'')"
    using assms(2) by (cases "datapackProducer s st'") simp
  have w1: "streams w1 ?os = \<lparr>s_closed = False, s_delivered = map Some ds, s_writer = []\<rparr>"
      "errs w1 = errs w0" "consumer w1 = consumer w" "trace w1 = trace w @ [GoFunc] @ writes ?os ds"
    by (simp_all add: w1_def w0)
  obtain w2 where loop2: "writer_loop (Suc m) s st' (Some ?os) (Some ?oe) w1 = (Normal, w2)"
    and w2: "streams w2 ?os = \<lparr>s_closed = True, s_delivered = map Some ds, s_writer = []\<rparr>"
       "errs w2 = errs w0" "trace w2 = trace w1 @ [CallNext, CallWrite ?os (Some d) True]"
    using nx w1 assms(4) by (simp add: IOStream_Write_def)
  obtain w3 where gor: "writer_goroutine fuel s st (Some ?os) (Some ?oe) w0 = (Normal, w3)"
    and w3: "streams w3 ?os = \<lparr>s_closed = True, s_delivered = map Some ds, s_writer = []\<rparr>"
       "e_closed (errs w3 ?oe)" "trace w3 = trace w2 @ [CloseErr ?oe, CloseStream ?os]"
    using loop1 loop2 w2 by (simp add: writer_goroutine_def writer_deferred_def close_outputs_Some)
  have "SafeIOStreamWriter_run fuel s st w = ((Some ?os, Some ?oe), Normal, w3)"
    using st w0(1) gor by (simp add: SafeIOStreamWriter_run_def)
  then show ?thesis using w3 w2 w1
    by simp
qed

theorem C8_witness:
  "\<exists>w'. SafeIOStreamWriter_run 5 (NewSafeIOStreamWriter scripted)
            [item pack_a, item pack_b, item pack_a]
            (empty_world\<lparr>consumer := (\<lambda>r n. if n < 1 then Accepts else ClosesInstead)\<rparr>)
          = ((Some 0, Some 0), Normal, w')
       \<and> trace w' = [GoFunc, CallNext, CallWrite 0 (Some pack_a) False,
                      CallNext, CallWrite 0 (Some pack_b) True, CloseErr 0, CloseStream 0]
       \<and> s_delivered (streams w' 0) = [Some pack_a]
       \<and> s_closed (streams w' 0)
       \<and> e_closed (errs w' 0)"
  using C8_consumer_closes_early [of "[pack_a]" "NewSafeIOStreamWriter scripted"
      "[item pack_a, item pack_b, item pack_a]" "[item pack_b, item pack_a]" pack_b True
      "empty_world\<lparr>consumer := (\<lambda>r n. if n < 1 then Accepts else ClosesInstead)\<rparr>" 5]
  by (simp add: NewSafeIOStreamWriter_def empty_world_def item_def writes_def)

section \<open>The cleanup of both stages\<close>

text \<open>
  Claim C9. A goroutine of either stage that holds an output pair never ends in an
  unrecovered panic. It returns whenever its loops have ended: after a normal end or an
  error that broke a loop in every case, after a panic whenever the output Error Channel
  had room for one error when the goroutine started. And whenever it returns, the events
  of its cleanup are the last events of the run and occur once each, in this order: the
  output Error Channel is closed, then the output Data Channel, then (handler stage, when
  one is set) the finalizer is called. Nothing before them closes the output pair or
  calls the finalizer.
\<close>

theorem C9_cleanup_once_in_order:
  "(\<forall>v. fst (writer_goroutine fuel s st (Some os) (Some oe) w) \<noteq> Fault v)
   \<and> (writer_goroutine fuel s st (Some os) (Some oe) w = (Normal, w') \<longrightarrow>
        (\<exists>pre. trace w' = trace w @ pre @ [CloseErr oe, CloseStream os]
              \<and> filter (cleanup_of os oe) pre = []))
   \<and> (inputStream hs = Some ups \<longrightarrow>
        (\<forall>v. fst (handler_goroutine hfuel hs h (Some hos) (Some hoe) hw) \<noteq> Fault v))
   \<and> (inputStream hs = Some ups \<and> ups \<noteq> hos
        \<and> handler_goroutine hfuel hs h (Some hos) (Some hoe) hw = (Normal, hw') \<longrightarrow>
        (\<exists>pre. trace hw' = trace hw @ pre @ [CloseErr hoe, CloseStream hos] @ finalizer_events hs
              \<and> filter (cleanup_of hos hoe) pre = []))
   \<and> (fst (writer_loop fuel s st (Some os) (Some oe) w) = Normal \<longrightarrow>
        fst (writer_goroutine fuel s st (Some os) (Some oe) w) = Normal)
   \<and> (fst (writer_loop fuel s st (Some os) (Some oe) w) = Fault r
        \<and> length (e_queue (errs w oe)) < e_cap (errs w oe) \<longrightarrow>
        fst (writer_goroutine fuel s st (Some os) (Some oe) w) = Normal)
   \<and> (fst (handler_body hfuel hs h (Some hoe) hw) = Normal \<longrightarrow>
        fst (handler_goroutine hfuel hs h (Some hos) (Some hoe) hw) = Normal)
   \<and> (inputStream hs = Some ups \<and> inputErr hs = Some hie
        \<and> fst (handler_body hfuel hs h (Some hoe) hw) = Fault hr
        \<and> length (e_queue (errs hw hoe)) < e_cap (errs hw hoe) \<longrightarrow>
        fst (handler_goroutine hfuel hs h (Some hos) (Some hoe) hw) = Normal)"
proof (intro conjI impI allI)
  fix v show "fst (writer_goroutine fuel s st (Some os) (Some oe) w) \<noteq> Fault v"
    by (rule writer_goroutine_no_crash)
next
  assume "writer_goroutine fuel s st (Some os) (Some oe) w = (Normal, w')"
  from writer_goroutine_cleanup [OF this]
  show "\<exists>pre. trace w' = trace w @ pre @ [CloseErr oe, CloseStream os]
              \<and> filter (cleanup_of os oe) pre = []"
    by (auto dest: no_cleanup_of)
next
  fix v assume "inputStream hs = Some ups"
  then show "fst (handler_goroutine hfuel hs h (Some hos) (Some hoe) hw) \<noteq> Fault v"
    by (rule handler_goroutine_no_crash)
next
  assume a: "inputStream hs = Some ups \<and> ups \<noteq> hos
        \<and> handler_goroutine hfuel hs h (Some hos) (Some hoe) hw = (Normal, hw')"
  then have "inputStream hs \<noteq> Some hos" by auto
  with a handler_goroutine_cleanup [of hfuel hs h hos hoe hw hw']
  show "\<exists>pre. trace hw' = trace hw @ pre @ [CloseErr hoe, CloseStream hos] @ finalizer_events hs
              \<and> filter (cleanup_of hos hoe) pre = []"
    by blast
next
  assume "fst (writer_loop fuel s st (Some os) (Some oe) w) = Normal"
  then show "fst (writer_goroutine fuel s st (Some os) (Some oe) w) = Normal"
    using writer_goroutine_returns [of fuel s st os oe w Normal _ r]
    by (cases "writer_loop fuel s st (Some os) (Some oe) w") simp
next
  assume "fst (writer_loop fuel s st (Some os) (Some oe) w) = Fault r
        \<and> length (e_queue (errs w oe)) < e_cap (errs w oe)"
  then show "fst (writer_goroutine fuel s st (Some os) (Some oe) w) = Normal"
    using writer_goroutine_returns [of fuel s st os oe w "Fault r" _ r]
    by (cases "writer_loop fuel s st (Some os) (Some oe) w") simp
next
  assume "fst (handler_body hfuel hs h (Some hoe) hw) = Normal"
  then show "fst (handler_goroutine hfuel hs h (Some hos) (Some hoe) hw) = Normal"
    by (cases "handler_body hfuel hs h (Some hoe) hw")
      (simp add: handler_goroutine_def handler_deferred_def handler_cleanup_Some)
next
  assume "inputStream hs = Some ups \<and> inputErr hs = Some hie
        \<and> fst (handler_body hfuel hs h (Some hoe) hw) = Fault hr
        \<and> length (e_queue (errs hw hoe)) < e_cap (errs hw hoe)"
  then show "fst (handler_goroutine hfuel hs h (Some hos) (Some hoe) hw) = Normal"
    using handler_goroutine_returns [of hfuel hs h hoe hw "Fault hr" _ ups hie hr hos]
    by (cases "handler_body hfuel hs h (Some hoe) hw") simp
qed

theorem C9_witness:
  "fst (writer_goroutine 5 (NewSafeIOStreamWriter scripted)
          [item pack_a, Yields (Some pack_b) False None] (Some 0) (Some 0) empty_world) = Normal
   \<and> (\<exists>pre. trace (snd (writer_goroutine 5 (NewSafeIOStreamWriter scripted)
                          [item pack_a, Yields (Some pack_b) False None] (Some 0) (Some 0)
                          empty_world))
             = trace empty_world @ pre @ [CloseErr 0, CloseStream 0]
           \<and> filter (cleanup_of 0 0) pre = [])
   \<and> fst (writer_goroutine 5 (NewSafeIOStreamWriter scripted) [item pack_a] (Some 0) (Some 0)
            empty_world) = Normal
   \<and> (\<exists>pre. trace (snd (writer_goroutine 5 (NewSafeIOStreamWriter scripted) [item pack_a]
                          (Some 0) (Some 0) empty_world))
             = trace empty_world @ pre @ [CloseErr 0, CloseStream 0]
           \<and> filter (cleanup_of 0 0) pre = [])
   \<and> fst (handler_goroutine 9 built_stage 0 (Some 1) (Some 1) late_errors) = Normal
   \<and> (\<exists>pre. trace (snd (handler_goroutine 9 built_stage 0 (Some 1) (Some 1) late_errors))
             = trace late_errors @ pre @ [CloseErr 1, CloseStream 1] @ finalizer_events built_stage
           \<and> filter (cleanup_of 1 1) pre = [])
   \<and> fst (handler_goroutine 9 built_stage 0 (Some 1) (Some 1) crash_upstream) = Normal
   \<and> (\<exists>pre. trace (snd (handler_goroutine 9 built_stage 0 (Some 1) (Some 1) crash_upstream))
             = trace crash_upstream @ pre @ [CloseErr 1, CloseStream 1]
               @ finalizer_events built_stage
           \<and> filter (cleanup_of 1 1) pre = [])"
proof -
  note defs = built_stage_def example_stage_def NewSafeIOStreamHandler_def
      NewSafeIOStreamWriter_def upstream_world_def empty_world_def quiet_stream_def
      quiet_err_def pack_a_def pack_bad_def pack_crash_def item_def late_errors_def
      crash_upstream_def
      writer_goroutine_def writer_deferred_def close_outputs_Some
      handler_goroutine_def handler_body_def handler_deferred_def handler_cleanup_Some
      IOStream_Write_def IOStream_Read_def IOStream_Close_def ErrorPasser_Put_def
      ErrorPasser_Check_def Let_def numeral_eq_Suc
  have l1: "fst (writer_loop 5 (NewSafeIOStreamWriter scripted)
          [item pack_a, Yields (Some pack_b) False None] (Some 0) (Some 0) empty_world) = Normal"
    and l2: "fst (writer_loop 5 (NewSafeIOStreamWriter scripted) [item pack_a] (Some 0) (Some 0)
            empty_world) = Fault ''no result left''"
    and l3: "fst (handler_body 9 built_stage 0 (Some 1) late_errors) = Normal"
    and l4: "fst (handler_body 9 built_stage 0 (Some 1) crash_upstream)
              = Fault ''index out of range''"
    and room: "length (e_queue (errs empty_world 0)) < e_cap (errs empty_world 0)"
       "length (e_queue (errs crash_upstream 1)) < e_cap (errs crash_upstream 1)"
    and ins: "inputStream built_stage = Some 0" "inputErr built_stage = Some 0"
    by (simp_all add: defs)
  note n = C9_cleanup_once_in_order
    [where fuel = 5 and s = "NewSafeIOStreamWriter scripted"
       and st = "[item pack_a, Yields (Some pack_b) False None]" and os = 0 and oe = 0
       and w = empty_world
       and w' = "snd (writer_goroutine 5 (NewSafeIOStreamWriter scripted)
                          [item pack_a, Yields (Some pack_b) False None] (Some 0) (Some 0)
                          empty_world)"
       and hs = built_stage and ups = 0 and hfuel = 9 and h = 0 and hos = 1 and hoe = 1
       and hw = late_errors
       and hw' = "snd (handler_goroutine 9 built_stage 0 (Some 1) (Some 1) late_errors)"]
  note f = C9_cleanup_once_in_order
    [where fuel = 5 and s = "NewSafeIOStreamWriter scripted"
       and st = "[item pack_a]" and os = 0 and oe = 0
       and w = empty_world
       and w' = "snd (writer_goroutine 5 (NewSafeIOStreamWriter scripted)
                          [item pack_a] (Some 0) (Some 0) empty_world)"
       and r = "''no result left''"
       and hs = built_stage and ups = 0 and hie = 0 and hfuel = 9 and h = 0 and hos = 1
       and hoe = 1 and hw = crash_upstream and hr = "''index out of range''"
       and hw' = "snd (handler_goroutine 9 built_stage 0 (Some 1) (Some 1) crash_upstream)"]
  have a: "fst (writer_goroutine 5 (NewSafeIOStreamWriter scripted)
          [item pack_a, Yields (Some pack_b) False None] (Some 0) (Some 0) empty_world) = Normal"
    and c: "fst (handler_goroutine 9 built_stage 0 (Some 1) (Some 1) late_errors) = Normal"
    using n l1 l3 by blast+
  have b: "fst (writer_goroutine 5 (NewSafeIOStreamWriter scripted) [item pack_a] (Some 0) (Some 0)
            empty_world) = Normal"
    and d: "fst (handler_goroutine 9 built_stage 0 (Some 1) (Some 1) crash_upstream) = Normal"
    using f l2 l4 room ins by blast+
  show ?thesis
    using n f a b c d ins by (simp add: prod_eq_iff)
qed

section \<open>A handler error leaves the upstream Data Channel open\<close>

text \<open>
  Claim C10. A handler stage is built and started; the handler returns \<^verbatim>\<open>nil\<close> on the
  datapacks \<open>ds\<close> and the error \<open>e\<close> on the next datapack \<open>d\<close>, without a panic. Then,
  however the drain loop that follows goes, the run puts \<open>e\<close> on the output Error
  Channel right after the handler call and reads nothing more (\<open>rest\<close> stays with the
  upstream writer); it never closes the upstream Data Channel, which is still open in the
  store the run leaves; and it does not end in an unrecovered panic. In general, a
  goroutine whose two loops do not panic never closes the upstream Data Channel: the
  only close of it is in the branch of the deferred function that follows a recovered
  panic.
\<close>

theorem C10_handler_error_leaves_upstream_open:
  assumes "inputStream s = Some ups" "inputErr s = Some ie" "datapackHandler s = Some f"
      and "ups < next_stream w" "ie < next_err w"
      and "\<not> s_closed (streams w ups)"
      and "s_writer (streams w ups) = feed (ds @ [d]) @ rest"
      and "quiet_on f h ds = Some h'"
      and "ReadCloser d = Some rc"
      and "fst (f h' (Context d) rc) = ReturnsErr e"
      and "length ds < fuel"
  shows "(\<exists>s' ex w' post relayed.
            BuildStream_then_Start fuel s h w =
              ((Some (next_stream w), Some (next_err w)), s', ex, w')
          \<and> (\<forall>v. ex \<noteq> Fault v)
          \<and> trace w' = trace w @ [GoFunc] @ handled ups ds
               @ [CallRead ups, CallHandler (Context d) rc, CallPut (next_err w) e] @ post
          \<and> CloseStream ups \<notin> set post
          \<and> \<not> s_closed (streams w' ups)
          \<and> s_writer (streams w' ups) = rest
          \<and> e_queue (errs w' (next_err w)) = e # relayed)
       \<and> ((\<forall>v. fst (handler_body gfuel gs gh (Some goe) gw) \<noteq> Fault v)
            \<and> inputStream gs = Some gups \<and> gups \<noteq> gos \<longrightarrow>
           (\<exists>new. trace (snd (handler_goroutine gfuel gs gh (Some gos) (Some goe) gw)) = trace gw @ new
                \<and> CloseStream gups \<notin> set new))"
proof (intro conjI impI)
  let ?os = "next_stream w" and ?oe = "next_err w"
  from BuildStream_then_Start_built [OF assms(1-3), of fuel h w] obtain s1 w0 where
    run: "BuildStream_then_Start fuel s h w =
           ((Some ?os, Some ?oe), s1, handler_goroutine fuel s1 h (Some ?os) (Some ?oe) w0)"
    and s1: "inputStream s1 = Some ups" "inputErr s1 = Some ie" "datapackHandler s1 = Some f"
       "finalizer s1 = finalizer s"
    and w0: "streams w0 = (streams w)(?os := \<lparr>s_closed = False, s_delivered = [], s_writer = []\<rparr>)"
       "errs w0 = (errs w)(?oe := \<lparr>e_cap = e_cap (errs w ie) + 2, e_queue = [], e_closed = False, e_writer = []\<rparr>)"
       "trace w0 = trace w @ [GoFunc]"
    by blast
  have neq: "ups \<noteq> ?os" "ie \<noteq> ?oe" using assms(4,5) by simp_all
  obtain m where fuel: "fuel = length ds + Suc m"
    using assms(11) less_imp_Suc_add by fastforce
  define w1 where "w1 = w0\<lparr>streams := (streams w0)(ups := (streams w0 ups)\<lparr>s_writer := Sends (Some d) # rest\<rparr>),
        trace := trace w0 @ handled ups ds\<rparr>"
  have loop1: "handler_loop fuel s1 h (Some ?oe) w0 = handler_loop (Suc m) s1 h' (Some ?oe) w1"
    unfolding fuel w1_def
    by (rule handler_loop_quiet [OF s1(1) s1(3) assms(8)]) (use assms(6,7) w0 neq in simp_all)
  obtain h'' where hp: "f h' (Context d) rc = (ReturnsErr e, h'')"
    using assms(10) by (cases "f h' (Context d) rc") simp
  have w1: "streams w1 ups = (streams w ups)\<lparr>s_writer := Sends (Some d) # rest\<rparr>"
      "errs w1 = errs w0" "trace w1 = trace w @ [GoFunc] @ handled ups ds"
    using neq by (simp_all add: w1_def w0)
  obtain w2 where loop2: "handler_loop (Suc m) s1 h' (Some ?oe) w1 = (Normal, w2)"
    and w2: "streams w2 ups = (streams w ups)\<lparr>s_writer := rest\<rparr>"
       "e_queue (errs w2 ?oe) = [e]"
       "trace w2 = trace w1 @ [CallRead ups, CallHandler (Context d) rc, CallPut ?oe e]"
    using s1 w1 w0 hp assms(6,9) neq by (simp add: IOStream_Read_def ErrorPasser_Put_def Let_def)
  obtain exd w3 where dr: "drain_loop fuel (Some ie) (Some ?oe) w2 = (exd, w3)"
    by (cases "drain_loop fuel (Some ie) (Some ?oe) w2")
  from drain_loop_effect [OF dr neq(2)] obtain pre where
    d: "\<forall>v. exd \<noteq> Fault v" "streams w3 = streams w2" "trace w3 = trace w2 @ pre"
       "filter is_cleanup pre = []"
       "e_queue (errs w3 ?oe) = e_queue (errs w2 ?oe) @ put_errors ?oe pre"
    by blast
  then have np: "CloseStream ups \<notin> set pre"
    by (auto simp: filter_empty_conv)
  have body: "handler_body fuel s1 h (Some ?oe) w0 = (exd, w3)"
    using loop1 loop2 dr s1 by (simp add: handler_body_def)
  obtain ex w' post where gor: "handler_goroutine fuel s1 h (Some ?os) (Some ?oe) w0 = (ex, w')"
    and r: "\<forall>v. ex \<noteq> Fault v" "trace w' = trace w3 @ post" "CloseStream ups \<notin> set post"
       "streams w' ups = streams w3 ups" "e_queue (errs w' ?oe) = e_queue (errs w3 ?oe)"
  proof (cases exd)
    case Normal
    show ?thesis
      using body Normal neq
      by (intro that [of Normal "snd (handler_cleanup s1 (Some ?os) (Some ?oe) w3)"
            "[CloseErr ?oe, CloseStream ?os] @ finalizer_events s1"])
        (auto simp: handler_goroutine_def handler_deferred_def handler_cleanup_Some
          finalizer_events_def split: option.splits)
  next
    case (Fault v)
    with d(1) show ?thesis by simp
  next
    case Hung
    show ?thesis
      using body Hung
      by (intro that [of Hung w3 "[]"]) (simp_all add: handler_goroutine_def handler_deferred_def)
  next
    case Unfinished
    show ?thesis
      using body Unfinished
      by (intro that [of Unfinished w3 "[]"]) (simp_all add: handler_goroutine_def handler_deferred_def)
  qed
  show "\<exists>s' ex w' post relayed.
            BuildStream_then_Start fuel s h w =
              ((Some (next_stream w), Some (next_err w)), s', ex, w')
          \<and> (\<forall>v. ex \<noteq> Fault v)
          \<and> trace w' = trace w @ [GoFunc] @ handled ups ds
               @ [CallRead ups, CallHandler (Context d) rc, CallPut (next_err w) e] @ post
          \<and> CloseStream ups \<notin> set post
          \<and> \<not> s_closed (streams w' ups)
          \<and> s_writer (streams w' ups) = rest
          \<and> e_queue (errs w' (next_err w)) = e # relayed"
    using run gor r d w2 w1 np assms(6)
    by (intro exI [of _ s1] exI [of _ ex] exI [of _ w'] exI [of _ "pre @ post"]
        exI [of _ "put_errors ?oe pre"]) simp
next
  assume a: "(\<forall>v. fst (handler_body gfuel gs gh (Some goe) gw) \<noteq> Fault v)
     \<and> inputStream gs = Some gups \<and> gups \<noteq> gos"
  then show "\<exists>new. trace (snd (handler_goroutine gfuel gs gh (Some gos) (Some goe) gw)) = trace gw @ new
                \<and> CloseStream gups \<notin> set new"
    using upstream_closed_only_after_fault [of gs gups gos gfuel gh goe gw] by blast
qed

theorem C10_witness:
  "(\<exists>s' ex w' post relayed.
       BuildStream_then_Start 9 example_stage 0 late_errors = ((Some 1, Some 1), s', ex, w')
     \<and> (\<forall>v. ex \<noteq> Fault v)
     \<and> trace w' = trace late_errors @ [GoFunc] @ handled 0 [pack_a]
          @ [CallRead 0, CallHandler (Context pack_bad) ''bad'', CallPut 1 ''bad input''] @ post
     \<and> CloseStream 0 \<notin> set post
     \<and> \<not> s_closed (streams w' 0)
     \<and> s_writer (streams w' 0) = feed [pack_b]
     \<and> e_queue (errs w' 1) = ''bad input'' # relayed)
   \<and> (\<exists>new. trace (snd (handler_goroutine 9 built_stage 0 (Some 1) (Some 1) late_errors))
              = trace late_errors @ new
            \<and> CloseStream 0 \<notin> set new)"
proof -
  have nf: "\<forall>v. fst (handler_body 9 built_stage 0 (Some 1) late_errors) \<noteq> Fault v"
    by (simp add: late_errors_def built_stage_def
      example_stage_def NewSafeIOStreamHandler_def upstream_world_def empty_world_def
      quiet_stream_def quiet_err_def pack_a_def pack_bad_def handler_body_def
      IOStream_Read_def ErrorPasser_Put_def ErrorPasser_Check_def Let_def numeral_eq_Suc)
  have up: "inputStream built_stage = Some 0"
    by (simp add: built_stage_def example_stage_def NewSafeIOStreamHandler_def)
  from C10_handler_error_leaves_upstream_open
    [where s = example_stage and ups = 0 and ie = 0 and f = example_handler
       and w = late_errors and ds = "[pack_a]" and d = pack_bad and rest = "feed [pack_b]"
       and h = 0 and h' = 1 and rc = "''bad''" and e = "''bad input''" and fuel = 9
       and gfuel = 9 and gs = built_stage and gh = 0 and goe = 1 and gw = late_errors
       and gups = 0 and gos = 1]
    nf up
  show ?thesis
    by (simp add: example_stage_def NewSafeIOStreamHandler_def late_errors_def
        upstream_world_def empty_world_def quiet_stream_def pack_a_def pack_bad_def)
qed

end
